theory Spec2Isabelle
  imports Complex_Main "HOL-Library.Sublist"
begin

section \<open>Strings of the host language\<close>

text \<open>
  A JavaScript string is modelled as a HOL \<open>string\<close>. A \<open>char\<close> is read as the code unit
  of the same number, so the model covers the strings whose code units are below 256
  (U+0000 to U+00FF); on that range the functions below compute what the built-ins
  \<open>toLowerCase\<close>, \<open>toUpperCase\<close>, \<open>trim\<close> and \<open>includes\<close> compute. The pictographs inside
  the reply literals of the source lie partly beyond that range; they are never inspected
  by the program and are written as the bytes the source file stores for them.
\<close>

definition upperLetters :: string where
  "upperLetters = ''ABCDEFGHIJKLMNOPQRSTUVWXYZ'' @
     [CHR 0xC0, CHR 0xC1, CHR 0xC2, CHR 0xC3, CHR 0xC4, CHR 0xC5, CHR 0xC6, CHR 0xC7,
      CHR 0xC8, CHR 0xC9, CHR 0xCA, CHR 0xCB, CHR 0xCC, CHR 0xCD, CHR 0xCE, CHR 0xCF,
      CHR 0xD0, CHR 0xD1, CHR 0xD2, CHR 0xD3, CHR 0xD4, CHR 0xD5, CHR 0xD6,
      CHR 0xD8, CHR 0xD9, CHR 0xDA, CHR 0xDB, CHR 0xDC, CHR 0xDD, CHR 0xDE]"

definition lowerLetters :: string where
  "lowerLetters = ''abcdefghijklmnopqrstuvwxyz'' @
     [CHR 0xE0, CHR 0xE1, CHR 0xE2, CHR 0xE3, CHR 0xE4, CHR 0xE5, CHR 0xE6, CHR 0xE7,
      CHR 0xE8, CHR 0xE9, CHR 0xEA, CHR 0xEB, CHR 0xEC, CHR 0xED, CHR 0xEE, CHR 0xEF,
      CHR 0xF0, CHR 0xF1, CHR 0xF2, CHR 0xF3, CHR 0xF4, CHR 0xF5, CHR 0xF6,
      CHR 0xF8, CHR 0xF9, CHR 0xFA, CHR 0xFB, CHR 0xFC, CHR 0xFD, CHR 0xFE]"

text \<open>\<open>String.prototype.toLowerCase\<close>: the letters A to Z and U+00C0 to U+00DE (without the
  multiplication sign U+00D7) go to their lower-case partners, every other character stays.\<close>

definition toLowerCase_char :: "char \<Rightarrow> char" where
  "toLowerCase_char c =
     (case map_of (zip upperLetters lowerLetters) c of Some l \<Rightarrow> l | None \<Rightarrow> c)"

definition toLowerCase :: "string \<Rightarrow> string" where
  "toLowerCase s = map toLowerCase_char s"

text \<open>\<open>String.prototype.toUpperCase\<close>: the inverse pairs, and the sharp s (U+00DF) becomes
  \<open>SS\<close>. The upper-case forms of U+00B5 and U+00FF are code units above 255; the model
  leaves these two characters as they are. The program calls \<open>toUpperCase\<close> on a matched
  order code only, which holds the letter n and three digits.\<close>

definition toUpperCase_char :: "char \<Rightarrow> string" where
  "toUpperCase_char c =
     (if c = CHR 0xDF then ''SS''
      else case map_of (zip lowerLetters upperLetters) c of Some u \<Rightarrow> [u] | None \<Rightarrow> [c])"

definition toUpperCase :: "string \<Rightarrow> string" where
  "toUpperCase s = concat (map toUpperCase_char s)"

text \<open>\<open>String.prototype.includes\<close>: the key occurs at some position of the string.\<close>

fun includes_str :: "string \<Rightarrow> string \<Rightarrow> bool" where
  "includes_str [] key = (key = [])"
| "includes_str (c # cs) key = (prefix key (c # cs) \<or> includes_str cs key)"

text \<open>\<open>String.prototype.trim\<close> removes white space and line terminators at both ends; below
  U+0100 these are tab, line feed, vertical tab, form feed, carriage return, space and the
  no-break space.\<close>

definition isWhiteSpace :: "char \<Rightarrow> bool" where
  "isWhiteSpace c = (c \<in> set [CHR 0x09, CHR 0x0A, CHR 0x0B, CHR 0x0C, CHR 0x0D, CHR 0x20, CHR 0xA0])"

definition trim :: "string \<Rightarrow> string" where
  "trim s = rev (dropWhile isWhiteSpace (rev (dropWhile isWhiteSpace s)))"

text \<open>The regular-expression class \<open>\d\<close>.\<close>

definition isDigit :: "char \<Rightarrow> bool" where
  "isDigit c = (c \<in> set ''0123456789'')"

text \<open>\<open>Number.prototype.toString\<close> on a natural number: its decimal digits.\<close>

fun toString_nat :: "nat \<Rightarrow> string" where
  "toString_nat n =
     (if n < 10 then [''0123456789'' ! n]
      else toString_nat (n div 10) @ [''0123456789'' ! (n mod 10)])"

declare toString_nat.simps [simp del]

section \<open>Response resolver of the Nibbly widget (src/components/ChatBot.tsx)\<close>

record DroneLocation =
  lat :: real
  lng :: real
  address :: string

record DroneData =
  location :: DroneLocation
  eta :: nat
  status :: string

definition droneLocations :: "string \<rightharpoonup> DroneData" where
  "droneLocations = map_of
    [(''N001'', \<lparr>location = \<lparr>lat = 40.7505, lng = - 73.9934, address = ''Near Washington Square Park''\<rparr>,
                eta = 4, status = ''In Transit''\<rparr>),
     (''N002'', \<lparr>location = \<lparr>lat = 40.7614, lng = - 73.9776, address = ''Above Union Square''\<rparr>,
                eta = 7, status = ''In Transit''\<rparr>),
     (''N003'', \<lparr>location = \<lparr>lat = 40.7831, lng = - 73.9712, address = ''Central Park South''\<rparr>,
                eta = 12, status = ''Preparing for delivery''\<rparr>)]"

text \<open>The rule table, in the order the object literal lists its keys; \<open>Object.entries\<close>
  enumerates string keys in insertion order.\<close>

definition botResponses_nibbly :: "(string \<times> string) list" where
  "botResponses_nibbly =
    [(''track my order'',
      ''I'll help you track your Nibbly drone delivery! Please provide your order number (format: N001, N002, etc.) and I'll show you exactly where your drone is in Lower Manhattan.''),
     (''wrong order'',
      ''Oh no! I'm sorry your order isn't correct. Please provide your order number and tell me what's wrong - we'll get this fixed right away and send out a replacement drone if needed.''),
     (''I need help'',
      ''Hi! I'm here to help with your Nibbly drone delivery. I can track your drone's location, estimate delivery time, help with incorrect orders, or answer any questions about our service in Lower Manhattan!''),
     (''hello'',
      ''Hello! Welcome to Nibbly - Lower Manhattan's fastest drone delivery service! '' @ [CHR 0xEF, CHR 0xA3, CHR 0xBF, CHR 0xC3, CHR 0xBC, CHR 0xC3, CHR 0xB6, CHR 0xC3, CHR 0x85] @ '' How can I help you today?''),
     (''hi'',
      ''Hi there! Thanks for choosing Nibbly for your delivery needs. I can track your drone, help with order issues, or answer any questions!''),
     (''refund'',
      ''I understand you'd like a refund. For drone deliveries, we offer full refunds if there's an issue with your order. Please provide your order number and I'll process this for you.''),
     (''cancel order'',
      ''I can help cancel your order if the drone hasn't taken off yet. Please provide your order number and I'll check if we can still cancel it.''),
     (''delivery time'',
      ''Our drones typically deliver within 15 minutes anywhere in Lower Manhattan! Weather conditions may add a few extra minutes for safety.''),
     (''location'',
      ''We serve all of Lower Manhattan from Battery Park to 14th Street. Our drones launch from our hub near the Brooklyn Bridge and can reach you super quickly!''),
     (''how it works'',
      ''Simple! Order through our app, our drone picks up your items from local partners, and flies directly to your location. You'll get real-time tracking the whole way!'')]"

text \<open>\<open>message.match(/n\d{3}/i)\<close>: the leftmost position at which the letter n (in either
  case, by the flag \<open>i\<close>) is followed by three digits; the result is the matched text, or
  nothing (\<open>null\<close>) when no position matches.\<close>

fun orderMatch :: "string \<Rightarrow> string option" where
  "orderMatch (c # d1 # d2 # d3 # rest) =
     (if (c = CHR ''n'' \<or> c = CHR ''N'') \<and> isDigit d1 \<and> isDigit d2 \<and> isDigit d3
      then Some [c, d1, d2, d3]
      else orderMatch (d1 # d2 # d3 # rest))"
| "orderMatch _ = None"

text \<open>The two template literals of the order branch.\<close>

definition foundReply :: "string \<Rightarrow> DroneData \<Rightarrow> string" where
  "foundReply orderNum droneData =
     [CHR 0xEF, CHR 0xA3, CHR 0xBF, CHR 0xC3, CHR 0xBC, CHR 0xC3, CHR 0xB6, CHR 0xC3, CHR 0x85] @
     '' Found your order '' @ orderNum @ ''!'' @
     [CHR 0x0A, CHR 0x0A, CHR 0xEF, CHR 0xA3, CHR 0xBF, CHR 0xC3, CHR 0xBC, CHR 0xC3, CHR 0xAC, CHR 0xC3, CHR 0xA7] @
     '' Current location: '' @ address (location droneData) @
     [CHR 0x0A, CHR 0xE2, CHR 0x80, CHR 0x9A, CHR 0xC3, CHR 0xA8, CHR 0xE2, CHR 0x88, CHR 0x9E] @
     '' ETA: '' @ toString_nat (eta droneData) @ '' minutes'' @
     [CHR 0x0A, CHR 0xEF, CHR 0xA3, CHR 0xBF, CHR 0xC3, CHR 0xBC, CHR 0xC3, CHR 0xAC, CHR 0xC2, CHR 0xB6] @
     '' Status: '' @ status droneData @
     [CHR 0x0A, CHR 0x0A] @
     ''Your drone is flying at 400ft altitude for safety. You'll get a notification when it's 1 minute away!''"

definition notFoundReply :: "string \<Rightarrow> string" where
  "notFoundReply orderNum =
     ''I couldn't find order '' @ orderNum @
     ''. Please double-check your order number or contact us if you think this is an error.''"

text \<open>The replies of the keyword checks that follow the table, and the default reply.\<close>

definition droneReply :: string where
  "droneReply = ''To track your drone, please provide your order number (like N001). I'll show you exactly where it is and when it will arrive!''"

definition etaReply :: string where
  "etaReply = ''Delivery times depend on your location in Lower Manhattan. Please share your order number and I'll give you the exact ETA!''"

definition thankReply_nibbly :: string where
  "thankReply_nibbly = ''You're very welcome! Enjoy your Nibbly delivery! '' @ [CHR 0xEF, CHR 0xA3, CHR 0xBF, CHR 0xC3, CHR 0xBC, CHR 0xC3, CHR 0xB6, CHR 0xC3, CHR 0x85] @ '' Anything else I can help with?''"

definition byeReply_nibbly :: string where
  "byeReply_nibbly = ''Thanks for using Nibbly! Have a great day and don't hesitate to reach out if you need anything! '' @ [CHR 0xEF, CHR 0xA3, CHR 0xBF, CHR 0xC3, CHR 0xBC, CHR 0xC3, CHR 0xB6, CHR 0xC3, CHR 0x85]"

definition defaultReply_nibbly :: string where
  "defaultReply_nibbly = ''I'm here to help with your Nibbly drone delivery! I can track your order, help with issues, or answer questions. What can I assist you with?''"

text \<open>The loop over \<open>Object.entries(botResponses)\<close>: the response of the first entry whose key
  the message includes, or nothing when the loop runs to its end.\<close>

fun tableLookup :: "(string \<times> string) list \<Rightarrow> string \<Rightarrow> string option" where
  "tableLookup [] message = None"
| "tableLookup ((key, response) # entries) message =
     (if includes_str message key then Some response else tableLookup entries message)"

definition getBotResponse_nibbly :: "string \<Rightarrow> string" where
  "getBotResponse_nibbly userMessage =
     (let message = toLowerCase userMessage in
      case orderMatch message of
        Some m \<Rightarrow>
          (let orderNum = toUpperCase m in
           case droneLocations orderNum of
             Some droneData \<Rightarrow> foundReply orderNum droneData
           | None \<Rightarrow> notFoundReply orderNum)
      | None \<Rightarrow>
          (case tableLookup botResponses_nibbly message of
             Some response \<Rightarrow> response
           | None \<Rightarrow>
               if includes_str message ''drone'' \<and> (includes_str message ''where'' \<or> includes_str message ''location'')
               then droneReply
               else if includes_str message ''eta'' \<or> includes_str message ''when'' \<or> includes_str message ''arrive''
               then etaReply
               else if includes_str message ''thank'' then thankReply_nibbly
               else if includes_str message ''bye'' \<or> includes_str message ''goodbye'' then byeReply_nibbly
               else defaultReply_nibbly))"

section \<open>Response resolver of the customer-support page (second source file)\<close>

definition botResponses_cs :: "(string \<times> string) list" where
  "botResponses_cs =
    [(''track my order'',
      ''I'd be happy to help you track your order! Please provide your order number (usually starts with #) and I'll look it up for you right away.''),
     (''billing question'',
      ''I can help with billing inquiries. Are you looking to update payment information, view invoices, or resolve a billing issue? Please let me know more details.''),
     (''I need help'',
      ''I'm here to help! I can assist with order tracking, billing questions, account issues, product information, returns, and more. What specific area can I help you with today?''),
     (''hello'',
      ''Hello! Welcome to our customer support. I'm here to help you with any questions or concerns. How can I assist you today?''),
     (''hi'',
      ''Hi there! Thanks for reaching out. I'm your customer service assistant. What can I help you with today?''),
     (''refund'',
      ''I understand you're looking for information about refunds. Our refund policy allows returns within 30 days of purchase. Could you please provide your order number so I can check the details for you?''),
     (''return'',
      ''I can help you with returns! Items can be returned within 30 days in original condition. Do you have your order number handy? This will help me process your return request faster.''),
     (''cancel order'',
      ''I can help you cancel your order if it hasn't shipped yet. Please provide your order number and I'll check the status right away.''),
     (''shipping'',
      ''I can provide shipping information! Are you asking about shipping costs, delivery times, or tracking an existing shipment? Please let me know your specific question.''),
     (''account'',
      ''I can help with account-related questions. Are you having trouble logging in, need to update your information, or have other account concerns?''),
     (''password'',
      ''If you're having trouble with your password, I can guide you through resetting it. Please check your email for a password reset link, or let me know if you need me to send another one.'')]"

definition orderStatusReply :: string where
  "orderStatusReply = ''I can help you check your order status. Please provide your order number and I'll look it up immediately.''"

definition cancelReply :: string where
  "cancelReply = ''I understand you want to cancel something. Could you specify if it's an order, subscription, or service? I'll help you with the cancellation process.''"

definition thankReply_cs :: string where
  "thankReply_cs = ''You're very welcome! I'm glad I could help. Is there anything else I can assist you with today?''"

definition byeReply_cs :: string where
  "byeReply_cs = ''Thank you for contacting us! Have a wonderful day and don't hesitate to reach out if you need any further assistance.''"

definition defaultReply_cs :: string where
  "defaultReply_cs = ''I understand your concern. Let me connect you with the right information. Could you provide more details about your specific issue? This will help me assist you better.''"

definition getBotResponse_cs :: "string \<Rightarrow> string" where
  "getBotResponse_cs userMessage =
     (let message = toLowerCase userMessage in
      case tableLookup botResponses_cs message of
        Some response \<Rightarrow> response
      | None \<Rightarrow>
          if includes_str message ''order'' \<and> includes_str message ''status'' then orderStatusReply
          else if includes_str message ''cancel'' \<or> includes_str message ''cancelled'' then cancelReply
          else if includes_str message ''thank'' then thankReply_cs
          else if includes_str message ''bye'' \<or> includes_str message ''goodbye'' then byeReply_cs
          else defaultReply_cs)"

section \<open>Conversation state\<close>

text \<open>
  The component state of both files: the hooks \<open>messages\<close>, \<open>inputValue\<close> and \<open>isTyping\<close>,
  and the callbacks that \<open>setTimeout\<close> has scheduled and not yet run, each with the instant
  it is due and the \<open>textToSend\<close> it has captured. Instants (\<open>Date.now()\<close>, \<open>new Date()\<close>)
  are milliseconds as natural numbers and are handed to every handler by its caller. The
  Nibbly widget extends the state by \<open>isOpen\<close> and \<open>isMinimized\<close>.
\<close>

datatype Sender = User | Bot

record Message =
  id_msg :: string
  text_msg :: string
  sender :: Sender
  timestamp :: nat

record ChatState =
  messages :: "Message list"
  inputValue :: string
  isTyping :: bool
  timers :: "(nat \<times> string) list"

record WidgetState = ChatState +
  isOpen :: bool
  isMinimized :: bool

text \<open>The quick actions; the icon of each entry is a component reference and is left out.\<close>

record QuickAction =
  label :: string
  query :: string

definition quickActions_nibbly :: "QuickAction list" where
  "quickActions_nibbly =
    [\<lparr>label = ''Track Drone'', query = ''track my order''\<rparr>,
     \<lparr>label = ''Wrong Order'', query = ''wrong order''\<rparr>,
     \<lparr>label = ''Help'', query = ''I need help''\<rparr>]"

definition quickActions_cs :: "QuickAction list" where
  "quickActions_cs =
    [\<lparr>label = ''Track Order'', query = ''track my order''\<rparr>,
     \<lparr>label = ''Billing'', query = ''billing question''\<rparr>,
     \<lparr>label = ''Help'', query = ''I need help''\<rparr>]"

definition greeting_nibbly :: string where
  "greeting_nibbly = ''Hi! I'm your Nibbly support assistant. I can help track your drone delivery, handle order issues, or answer questions about our service in Lower Manhattan! '' @ [CHR 0xEF, CHR 0xA3, CHR 0xBF, CHR 0xC3, CHR 0xBC, CHR 0xC3, CHR 0xB6, CHR 0xC3, CHR 0x85]"

definition greeting_cs :: string where
  "greeting_cs = ''Hello! I'm your customer service assistant. I'm here to help with orders, billing, returns, and any other questions you might have. How can I assist you today?''"

text \<open>The initial hook values; \<open>t0\<close> is the instant the component is mounted.\<close>

definition initial_cs :: "nat \<Rightarrow> ChatState" where
  "initial_cs t0 =
     \<lparr>messages = [\<lparr>id_msg = ''1'', text_msg = greeting_cs, sender = Bot, timestamp = t0\<rparr>],
      inputValue = [], isTyping = False, timers = []\<rparr>"

definition initial_nibbly :: "nat \<Rightarrow> WidgetState" where
  "initial_nibbly t0 =
     \<lparr>messages = [\<lparr>id_msg = ''1'', text_msg = greeting_nibbly, sender = Bot, timestamp = t0\<rparr>],
      inputValue = [], isTyping = False, timers = [],
      isOpen = False, isMinimized = False\<rparr>"

text \<open>\<open>messageText || inputValue.trim()\<close>: a missing and an empty argument are both falsy.\<close>

definition textToSend :: "string option \<Rightarrow> string \<Rightarrow> string" where
  "textToSend messageText inputVal =
     (case messageText of
        Some m \<Rightarrow> if m \<noteq> [] then m else trim inputVal
      | None \<Rightarrow> trim inputVal)"

text \<open>\<open>handleSendMessage\<close>, the same text in both files, called at the instant \<open>now\<close>.\<close>

definition handleSendMessage :: "string option \<Rightarrow> nat \<Rightarrow> 'a ChatState_scheme \<Rightarrow> 'a ChatState_scheme" where
  "handleSendMessage messageText now st =
     (let t = textToSend messageText (inputValue st) in
      if t = [] then st
      else
        (let userMessage = \<lparr>id_msg = toString_nat now, text_msg = t, sender = User, timestamp = now\<rparr>
         in st\<lparr>messages := messages st @ [userMessage],
               inputValue := [],
               isTyping := True,
               timers := timers st @ [(now + 1500, t)]\<rparr>))"

text \<open>The callback handed to \<open>setTimeout\<close>, run at the instant \<open>now\<close> with the captured text;
  \<open>resolve\<close> is the \<open>getBotResponse\<close> of the file.\<close>

definition timeoutCallback :: "(string \<Rightarrow> string) \<Rightarrow> string \<Rightarrow> nat \<Rightarrow> 'a ChatState_scheme \<Rightarrow> 'a ChatState_scheme" where
  "timeoutCallback resolve t now st =
     (let botResponse = \<lparr>id_msg = toString_nat (now + 1), text_msg = resolve t, sender = Bot, timestamp = now\<rparr>
      in st\<lparr>messages := messages st @ [botResponse], isTyping := False\<rparr>)"

text \<open>\<open>handleKeyPress\<close>: the Enter key without Shift sends the content of the input field
  (\<open>preventDefault\<close> does not touch the state).\<close>

definition handleKeyPress :: "string \<Rightarrow> bool \<Rightarrow> nat \<Rightarrow> 'a ChatState_scheme \<Rightarrow> 'a ChatState_scheme" where
  "handleKeyPress key shiftKey now st =
     (if key = ''Enter'' \<and> \<not> shiftKey then handleSendMessage None now st else st)"

text \<open>The events that reach the component: a change of the input field with its new value,
  a key press in the input field with the key and the state of Shift, clicks on the send
  button, on a quick action (by its index) and on the buttons of the widget frame, and the
  run of a scheduled callback.\<close>

datatype Event =
    Change string
  | KeyPress string bool
  | ClickSend
  | ClickQuickAction nat
  | TimerFires
  | ClickOpen
  | ClickClose
  | ClickMinimize

text \<open>
  Modelled from the spec: the \<open>Input\<close> and \<open>Button\<close> components (components/ui) are not among
  the sources at hand. Following the spec ("the input affordance is disabled"), a control
  whose \<open>disabled\<close> attribute is true delivers no event; the attribute values are those the
  source passes: \<open>isTyping\<close> for the input field, \<open>!inputValue.trim() || isTyping\<close> for the send
  button, and none for the quick-action buttons. The oldest scheduled callback runs once
  its instant has come.
\<close>

definition chatStep ::
  "(string \<Rightarrow> string) \<Rightarrow> QuickAction list \<Rightarrow> nat \<Rightarrow> Event \<Rightarrow> 'a ChatState_scheme \<Rightarrow> 'a ChatState_scheme" where
  "chatStep resolve actions now ev st =
     (case ev of
        Change v \<Rightarrow> if isTyping st then st else st\<lparr>inputValue := v\<rparr>
      | KeyPress key shiftKey \<Rightarrow> if isTyping st then st else handleKeyPress key shiftKey now st
      | ClickSend \<Rightarrow>
          if trim (inputValue st) = [] \<or> isTyping st then st else handleSendMessage None now st
      | ClickQuickAction i \<Rightarrow>
          if i < length actions then handleSendMessage (Some (query (actions ! i))) now st else st
      | TimerFires \<Rightarrow>
          (case timers st of
             [] \<Rightarrow> st
           | (due, t) # rest \<Rightarrow>
               if due \<le> now then timeoutCallback resolve t now (st\<lparr>timers := rest\<rparr>) else st)
      | _ \<Rightarrow> st)"

definition step_cs :: "nat \<Rightarrow> Event \<Rightarrow> ChatState \<Rightarrow> ChatState" where
  "step_cs now ev st = chatStep getBotResponse_cs quickActions_cs now ev st"

text \<open>The Nibbly widget renders the launcher button alone while it is closed, the header
  alone while it is minimized, and the quick actions and the input row otherwise.\<close>

definition step_nibbly :: "nat \<Rightarrow> Event \<Rightarrow> WidgetState \<Rightarrow> WidgetState" where
  "step_nibbly now ev st =
     (case ev of
        ClickOpen \<Rightarrow> if isOpen st then st else st\<lparr>isOpen := True\<rparr>
      | ClickClose \<Rightarrow> if isOpen st then st\<lparr>isOpen := False\<rparr> else st
      | ClickMinimize \<Rightarrow> if isOpen st then st\<lparr>isMinimized := \<not> isMinimized st\<rparr> else st
      | TimerFires \<Rightarrow> chatStep getBotResponse_nibbly quickActions_nibbly now ev st
      | _ \<Rightarrow>
          if isOpen st \<and> \<not> isMinimized st
          then chatStep getBotResponse_nibbly quickActions_nibbly now ev st
          else st)"

text \<open>A run: events with their instants, in the order they are handled.\<close>

fun run :: "(nat \<Rightarrow> Event \<Rightarrow> 's \<Rightarrow> 's) \<Rightarrow> (nat \<times> Event) list \<Rightarrow> 's \<Rightarrow> 's" where
  "run stp [] st = st"
| "run stp ((now, ev) # evs) st = run stp evs (stp now ev st)"

section \<open>The resolvers with their effects explicit\<close>

text \<open>
  The two functions \<open>getBotResponse\<close> once more, statement by statement, as computations
  that run in the component state: a computation takes the state it finds and ends with
  a value or with an exception, and with the state it leaves. Reading an element or a
  property of \<open>null\<close> or \<open>undefined\<close> raises a \<open>TypeError\<close>; nothing else in the two bodies
  can raise. The tables \<open>botResponses\<close> and \<open>droneLocations\<close> are module constants that no
  statement of either file assigns to, so they are not part of the state.
\<close>

datatype JsError = TypeError

type_synonym ('w, 'a) Computation = "'w \<Rightarrow> (JsError + 'a) \<times> 'w"

definition return_val :: "'a \<Rightarrow> ('w, 'a) Computation" where
  "return_val x = (\<lambda>w. (Inr x, w))"

definition throw_err :: "JsError \<Rightarrow> ('w, 'a) Computation" where
  "throw_err e = (\<lambda>w. (Inl e, w))"

definition bind_comp :: "('w, 'a) Computation \<Rightarrow> ('a \<Rightarrow> ('w, 'b) Computation) \<Rightarrow> ('w, 'b) Computation" where
  "bind_comp m f = (\<lambda>w. case m w of (Inl e, w') \<Rightarrow> (Inl e, w') | (Inr x, w') \<Rightarrow> f x w')"

text \<open>\<open>orderMatch[0]\<close>: the matched text when \<open>match\<close> has returned an array, a \<open>TypeError\<close>
  when it has returned \<open>null\<close>.\<close>

definition element0 :: "string option \<Rightarrow> ('w, string) Computation" where
  "element0 arr = (case arr of None \<Rightarrow> throw_err TypeError | Some m \<Rightarrow> return_val m)"

text \<open>\<open>droneData.location\<close>, \<open>droneData.eta\<close>, \<open>droneData.status\<close>: the record when the lookup
  has found one, a \<open>TypeError\<close> when it has returned \<open>undefined\<close>.\<close>

definition propertiesOf :: "DroneData option \<Rightarrow> ('w, DroneData) Computation" where
  "propertiesOf obj = (case obj of None \<Rightarrow> throw_err TypeError | Some d \<Rightarrow> return_val d)"

text \<open>The \<open>for\<close> loop over the entries; it ends the function with a response (\<open>Some\<close>) or
  runs to its end (\<open>None\<close>).\<close>

fun tableLoop :: "(string \<times> string) list \<Rightarrow> string \<Rightarrow> ('w, string option) Computation" where
  "tableLoop [] message = return_val None"
| "tableLoop ((key, response) # entries) message =
     (if includes_str message key then return_val (Some response) else tableLoop entries message)"

definition getBotResponseM_nibbly :: "string \<Rightarrow> ('a ChatState_scheme, string) Computation" where
  "getBotResponseM_nibbly userMessage =
     (let message = toLowerCase userMessage;
          matched = orderMatch message
      in if matched \<noteq> None
         then bind_comp (element0 matched) (\<lambda>m0.
                let orderNum = toUpperCase m0;
                    droneData = droneLocations orderNum
                in if droneData \<noteq> None
                   then bind_comp (propertiesOf droneData) (\<lambda>d. return_val (foundReply orderNum d))
                   else return_val (notFoundReply orderNum))
         else bind_comp (tableLoop botResponses_nibbly message) (\<lambda>hit.
                case hit of
                  Some response \<Rightarrow> return_val response
                | None \<Rightarrow>
                    if includes_str message ''drone'' \<and> (includes_str message ''where'' \<or> includes_str message ''location'')
                    then return_val droneReply
                    else if includes_str message ''eta'' \<or> includes_str message ''when'' \<or> includes_str message ''arrive''
                    then return_val etaReply
                    else if includes_str message ''thank'' then return_val thankReply_nibbly
                    else if includes_str message ''bye'' \<or> includes_str message ''goodbye'' then return_val byeReply_nibbly
                    else return_val defaultReply_nibbly))"

definition getBotResponseM_cs :: "string \<Rightarrow> ('a ChatState_scheme, string) Computation" where
  "getBotResponseM_cs userMessage =
     (let message = toLowerCase userMessage
      in bind_comp (tableLoop botResponses_cs message) (\<lambda>hit.
           case hit of
             Some response \<Rightarrow> return_val response
           | None \<Rightarrow>
               if includes_str message ''order'' \<and> includes_str message ''status'' then return_val orderStatusReply
               else if includes_str message ''cancel'' \<or> includes_str message ''cancelled'' then return_val cancelReply
               else if includes_str message ''thank'' then return_val thankReply_cs
               else if includes_str message ''bye'' \<or> includes_str message ''goodbye'' then return_val byeReply_cs
               else return_val defaultReply_cs))"

section \<open>Notions used to state the properties\<close>

text \<open>The input holds an order code: somewhere in it stands the letter N, in either case,
  followed by three digits.\<close>

definition containsOrderCode :: "string \<Rightarrow> bool" where
  "containsOrderCode s =
     (\<exists>d1 d2 d3. isDigit d1 \<and> isDigit d2 \<and> isDigit d3 \<and>
        (sublist [CHR ''n'', d1, d2, d3] s \<or> sublist [CHR ''N'', d1, d2, d3] s))"

text \<open>The reply of the order branch for a code: the tracking reply when the code is a key
  of \<open>droneLocations\<close>, the not-found reply otherwise.\<close>

definition orderReply :: "string \<Rightarrow> string" where
  "orderReply code =
     (case droneLocations code of
        Some droneData \<Rightarrow> foundReply code droneData
      | None \<Rightarrow> notFoundReply code)"

text \<open>The replies of the keyword checks, per file.\<close>

definition keywordReplies_nibbly :: "string list" where
  "keywordReplies_nibbly = [droneReply, etaReply, thankReply_nibbly, byeReply_nibbly]"

definition keywordReplies_cs :: "string list" where
  "keywordReplies_cs = [orderStatusReply, cancelReply, thankReply_cs, byeReply_cs]"

section \<open>Facts about the string functions and the two resolvers\<close>

lemma includes_str_sublist: "includes_str s key \<longleftrightarrow> sublist key s"
  by (induction s) (auto simp: sublist_Cons_right)

lemma lower_of_upper:
  "map_of (zip upperLetters lowerLetters) c = Some l \<Longrightarrow> c \<in> set upperLetters \<and> l \<in> set lowerLetters"
  by (auto dest!: map_of_SomeD dest: set_zip_leftD set_zip_rightD)

lemma letters_length: "length upperLetters = length lowerLetters"
  by (simp add: upperLetters_def lowerLetters_def)

lemma lower_fixed:
  assumes "map_of (zip upperLetters lowerLetters) c = None"
  shows "c \<notin> set upperLetters"
proof -
  have "map fst (zip upperLetters lowerLetters) = upperLetters"
    using letters_length by (rule map_fst_zip)
  then have "fst ` set (zip upperLetters lowerLetters) = set upperLetters"
    by (metis set_map)
  with assms show ?thesis
    by (simp only: map_of_eq_None_iff not_False_eq_True)
qed

lemma toLowerCase_char_not_upper: "toLowerCase_char c \<notin> set upperLetters"
proof (cases "map_of (zip upperLetters lowerLetters) c")
  case None
  then show ?thesis using lower_fixed [OF None] by (simp add: toLowerCase_char_def)
next
  case (Some l)
  then have "l \<in> set lowerLetters" using lower_of_upper by blast
  then have "l \<notin> set upperLetters"
    by (auto simp: lowerLetters_def upperLetters_def)
  with Some show ?thesis by (simp add: toLowerCase_char_def)
qed

lemma toLowerCase_char_digit: "isDigit (toLowerCase_char c) \<longleftrightarrow> isDigit c"
proof (cases "map_of (zip upperLetters lowerLetters) c")
  case None
  then show ?thesis by (simp add: toLowerCase_char_def)
next
  case (Some l)
  then have "c \<in> set upperLetters" "l \<in> set lowerLetters" using lower_of_upper by blast+
  then have "\<not> isDigit c" "\<not> isDigit l"
    by (auto simp: lowerLetters_def upperLetters_def isDigit_def)
  with Some show ?thesis by (simp add: toLowerCase_char_def)
qed

lemma toLowerCase_char_n: "toLowerCase_char c = CHR ''n'' \<longleftrightarrow> c = CHR ''n'' \<or> c = CHR ''N''"
proof (cases "map_of (zip upperLetters lowerLetters) c")
  case None
  then have "c \<noteq> CHR ''N''" using lower_fixed [OF None] by (auto simp: upperLetters_def)
  with None show ?thesis by (simp add: toLowerCase_char_def)
next
  case (Some l)
  then have "(c, l) \<in> set (zip upperLetters lowerLetters)" by (rule map_of_SomeD)
  then have "l = CHR ''n'' \<longleftrightarrow> c = CHR ''N''"
    by (auto simp: lowerLetters_def upperLetters_def)
  moreover have "c \<noteq> CHR ''n''" using lower_of_upper [OF Some] by (auto simp: upperLetters_def)
  ultimately show ?thesis using Some by (simp add: toLowerCase_char_def)
qed

lemma short_no_code:
  "\<not> containsOrderCode []" "\<not> containsOrderCode [a]" "\<not> containsOrderCode [a, b]"
  "\<not> containsOrderCode [a, b, c]"
  by (simp_all add: containsOrderCode_def sublist_Cons_right)

lemma containsOrderCode_Cons:
  "containsOrderCode (c # d1 # d2 # d3 # rest) \<longleftrightarrow>
     ((c = CHR ''n'' \<or> c = CHR ''N'') \<and> isDigit d1 \<and> isDigit d2 \<and> isDigit d3)
     \<or> containsOrderCode (d1 # d2 # d3 # rest)"
  unfolding containsOrderCode_def
  by (subst (1 2) sublist_Cons_right) auto

lemma orderMatch_None_iff: "orderMatch s = None \<longleftrightarrow> \<not> containsOrderCode s"
  by (induction s rule: orderMatch.induct) (auto simp: containsOrderCode_Cons short_no_code)

lemma orderMatch_Some_shape:
  "orderMatch s = Some m \<Longrightarrow>
   \<exists>c d1 d2 d3. m = [c, d1, d2, d3] \<and> (c = CHR ''n'' \<or> c = CHR ''N'') \<and>
      isDigit d1 \<and> isDigit d2 \<and> isDigit d3 \<and> sublist m s"
proof (induction s rule: orderMatch.induct)
  case (1 c d1 d2 d3 rest)
  show ?case
  proof (cases "(c = CHR ''n'' \<or> c = CHR ''N'') \<and> isDigit d1 \<and> isDigit d2 \<and> isDigit d3")
    case True
    with 1 have "m = [c, d1, d2, d3]" by auto
    moreover have "sublist [c, d1, d2, d3] (c # d1 # d2 # d3 # rest)"
      by (simp add: sublist_Cons_right)
    ultimately show ?thesis using True by blast
  next
    case False
    with 1 obtain c' e1 e2 e3 where m: "m = [c', e1, e2, e3]" "c' = CHR ''n'' \<or> c' = CHR ''N''"
      "isDigit e1" "isDigit e2" "isDigit e3" "sublist m (d1 # d2 # d3 # rest)"
      by auto
    then have "sublist m (c # d1 # d2 # d3 # rest)"
      by (subst sublist_Cons_right) simp
    with m show ?thesis by blast
  qed
qed simp_all

lemma toLowerCase_Cons: "toLowerCase (c # s) = toLowerCase_char c # toLowerCase s"
  by (simp add: toLowerCase_def)

lemma toLowerCase_char_N: "toLowerCase_char c \<noteq> CHR ''N''"
  using toLowerCase_char_not_upper [of c] by (auto simp: upperLetters_def)

lemma containsOrderCode_lower: "containsOrderCode (toLowerCase s) \<longleftrightarrow> containsOrderCode s"
proof (induction s rule: orderMatch.induct)
  case (1 c d1 d2 d3 rest)
  then show ?case
    by (auto simp: toLowerCase_Cons containsOrderCode_Cons toLowerCase_char_n
        toLowerCase_char_N toLowerCase_char_digit)
qed (simp_all add: toLowerCase_def short_no_code)

lemma digit_upper: "isDigit d \<Longrightarrow> toUpperCase_char d = [d]"
proof -
  assume d: "isDigit d"
  then have "d \<notin> set lowerLetters" "d \<noteq> CHR 0xDF"
    by (auto simp: isDigit_def lowerLetters_def)
  moreover have "map fst (zip lowerLetters upperLetters) = lowerLetters"
    using letters_length [symmetric] by (rule map_fst_zip)
  then have "fst ` set (zip lowerLetters upperLetters) = set lowerLetters"
    by (metis set_map)
  ultimately have "map_of (zip lowerLetters upperLetters) d = None"
    by (simp only: map_of_eq_None_iff not_False_eq_True)
  with \<open>d \<noteq> CHR 0xDF\<close> show ?thesis by (simp add: toUpperCase_char_def)
qed

lemma n_upper: "toUpperCase_char CHR ''n'' = ''N''" "toUpperCase_char CHR ''N'' = ''N''"
  by (simp_all add: toUpperCase_char_def lowerLetters_def upperLetters_def)

lemma code_upper:
  "c = CHR ''n'' \<or> c = CHR ''N'' \<Longrightarrow> isDigit d1 \<Longrightarrow> isDigit d2 \<Longrightarrow> isDigit d3 \<Longrightarrow>
   toUpperCase [c, d1, d2, d3] = [CHR ''N'', d1, d2, d3]"
  by (auto simp: toUpperCase_def digit_upper n_upper)

lemma digit_lower: "isDigit d \<Longrightarrow> toLowerCase_char d = d"
proof -
  assume "isDigit d"
  then have "d \<notin> set upperLetters" by (auto simp: isDigit_def upperLetters_def)
  then have "map_of (zip upperLetters lowerLetters) d = None"
    using lower_of_upper [of d] by (cases "map_of (zip upperLetters lowerLetters) d") auto
  then show ?thesis by (simp add: toLowerCase_char_def)
qed

lemma orderMatch_lower_source:
  assumes "orderMatch (toLowerCase s) = Some m"
  shows "\<exists>w. sublist w s \<and> toLowerCase w = m \<and> toUpperCase w = toUpperCase m \<and>
             (\<exists>d1 d2 d3. isDigit d1 \<and> isDigit d2 \<and> isDigit d3 \<and> toUpperCase m = [CHR ''N'', d1, d2, d3])"
proof -
  from orderMatch_Some_shape [OF assms] obtain c d1 d2 d3 where
    m: "m = [c, d1, d2, d3]" "c = CHR ''n'' \<or> c = CHR ''N''" "isDigit d1" "isDigit d2" "isDigit d3"
    and sub: "sublist m (toLowerCase s)" by blast
  from sub obtain w where w: "sublist w s" "m = map toLowerCase_char w"
    unfolding toLowerCase_def by (blast dest: sublist_map_rightE)
  from w(2) m(1) obtain c' e1 e2 e3 where w': "w = [c', e1, e2, e3]"
    "toLowerCase_char c' = c" "toLowerCase_char e1 = d1" "toLowerCase_char e2 = d2" "toLowerCase_char e3 = d3"
    by (auto simp: map_eq_Cons_conv)
  have c': "c' = CHR ''n'' \<or> c' = CHR ''N''"
    using w'(2) m(2) toLowerCase_char_n [of c'] toLowerCase_char_N [of c'] by auto
  have e: "isDigit e1" "isDigit e2" "isDigit e3"
    using w' m toLowerCase_char_digit by blast+
  then have "e1 = d1" "e2 = d2" "e3 = d3"
    using w' digit_lower by auto
  then have "toUpperCase w = toUpperCase m"
    using w' m c' by (simp add: code_upper)
  moreover have "toUpperCase m = [CHR ''N'', d1, d2, d3]"
    using m by (simp add: code_upper)
  ultimately show ?thesis using w w' m unfolding toLowerCase_def by blast
qed

lemma getBotResponse_nibbly_order:
  "orderMatch (toLowerCase s) = Some m \<Longrightarrow> getBotResponse_nibbly s = orderReply (toUpperCase m)"
  by (simp add: getBotResponse_nibbly_def orderReply_def Let_def)

lemma getBotResponse_nibbly_table:
  "orderMatch (toLowerCase s) = None \<Longrightarrow>
   tableLookup botResponses_nibbly (toLowerCase s) = Some r \<Longrightarrow>
   getBotResponse_nibbly s = r"
  by (simp add: getBotResponse_nibbly_def Let_def)

lemma getBotResponse_nibbly_keywords:
  "orderMatch (toLowerCase s) = None \<Longrightarrow>
   tableLookup botResponses_nibbly (toLowerCase s) = None \<Longrightarrow>
   getBotResponse_nibbly s \<in> set (keywordReplies_nibbly @ [defaultReply_nibbly])"
  by (simp add: getBotResponse_nibbly_def keywordReplies_nibbly_def Let_def)

lemma getBotResponse_cs_table:
  "tableLookup botResponses_cs (toLowerCase s) = Some r \<Longrightarrow> getBotResponse_cs s = r"
  by (simp add: getBotResponse_cs_def Let_def)

lemma getBotResponse_cs_keywords:
  "tableLookup botResponses_cs (toLowerCase s) = None \<Longrightarrow>
   getBotResponse_cs s \<in> set (keywordReplies_cs @ [defaultReply_cs])"
  by (simp add: getBotResponse_cs_def keywordReplies_cs_def Let_def)

lemma tableLookup_Some:
  "tableLookup T msg = Some r \<Longrightarrow> \<exists>k. (k, r) \<in> set T \<and> includes_str msg k"
  by (induction T msg rule: tableLookup.induct) (auto split: if_splits)

lemma tableLookup_first:
  "i < length T \<Longrightarrow> includes_str msg (fst (T ! i)) \<Longrightarrow>
   \<forall>j<i. \<not> includes_str msg (fst (T ! j)) \<Longrightarrow>
   tableLookup T msg = Some (snd (T ! i))"
proof (induction T msg arbitrary: i rule: tableLookup.induct)
  case (1 message)
  then show ?case by simp
next
  case (2 key response entries message)
  show ?case
  proof (cases i)
    case 0
    with 2 show ?thesis by simp
  next
    case (Suc i')
    with 2(4) have nohead: "\<not> includes_str message key" by fastforce
    have "\<forall>j<i'. \<not> includes_str message (fst (entries ! j))"
      using 2(4) Suc by fastforce
    with 2(1) [OF nohead, of i'] 2(2,3) Suc have "tableLookup entries message = Some (snd (entries ! i'))"
      by simp
    with nohead Suc show ?thesis by simp
  qed
qed

lemma foundReply_other:
  "r \<in> set (map snd botResponses_nibbly @ keywordReplies_nibbly @ [defaultReply_nibbly]) \<Longrightarrow>
   r \<noteq> foundReply code d"
  by (auto simp: botResponses_nibbly_def keywordReplies_nibbly_def defaultReply_nibbly_def
      droneReply_def etaReply_def thankReply_nibbly_def byeReply_nibbly_def foundReply_def)

lemma notFoundReply_other:
  "r \<in> set (map snd botResponses_nibbly @ keywordReplies_nibbly @ [defaultReply_nibbly]) \<Longrightarrow>
   r \<noteq> notFoundReply code"
  by (auto simp: botResponses_nibbly_def keywordReplies_nibbly_def defaultReply_nibbly_def
      droneReply_def etaReply_def thankReply_nibbly_def byeReply_nibbly_def notFoundReply_def)

section \<open>The empty-input guard\<close>

lemma trim_blank: "(\<forall>c\<in>set s. isWhiteSpace c) \<Longrightarrow> trim s = []"
proof -
  assume "\<forall>c\<in>set s. isWhiteSpace c"
  then have "dropWhile isWhiteSpace s = []"
    by (simp add: dropWhile_eq_Nil_conv)
  then show ?thesis
    by (simp add: trim_def del: dropWhile_eq_Nil_conv)
qed

lemma trim_empty_iff: "trim s = [] \<longleftrightarrow> (\<forall>c\<in>set s. isWhiteSpace c)"
proof
  assume "trim s = []"
  then have "dropWhile isWhiteSpace (rev (dropWhile isWhiteSpace s)) = []"
    by (simp add: trim_def)
  then have rest: "\<forall>c\<in>set (dropWhile isWhiteSpace s). isWhiteSpace c"
    by (simp add: dropWhile_eq_Nil_conv)
  have "dropWhile isWhiteSpace s = []"
  proof (cases "dropWhile isWhiteSpace s")
    case Nil
    then show ?thesis .
  next
    case (Cons x xs)
    then have "\<not> isWhiteSpace x"
      using hd_dropWhile [of isWhiteSpace s] by simp
    with rest Cons show ?thesis by simp
  qed
  then show "\<forall>c\<in>set s. isWhiteSpace c"
    by (simp add: dropWhile_eq_Nil_conv)
qed (rule trim_blank)

lemma quick_action_queries_not_blank:
  "\<forall>a\<in>set (quickActions_nibbly @ quickActions_cs). trim (query a) \<noteq> []"
  by (simp add: quickActions_nibbly_def quickActions_cs_def trim_def isWhiteSpace_def)

text \<open>
  Claim C2. When the input field holds the empty string or white space only, sending it
  does nothing: \<open>handleSendMessage\<close> without an argument (or with an empty one, which is
  the same) returns the state it was given, and so do the Enter key and the send button.
  No message is appended, no callback is scheduled, and \<open>messages\<close>, \<open>isTyping\<close> and
  \<open>inputValue\<close> are unchanged. The callers that pass an argument are the quick actions,
  and their queries are fixed and not blank (\<open>quick_action_queries_not_blank\<close>).
\<close>

theorem blank_submit_noop:
  assumes "\<forall>c\<in>set (inputValue st). isWhiteSpace c"
    and "messageText = None \<or> messageText = Some []"
  shows "handleSendMessage messageText now st = st \<and>
         chatStep resolve actions now (KeyPress ''Enter'' False) st = st \<and>
         chatStep resolve actions now ClickSend st = st"
proof -
  have blank: "trim (inputValue st) = []"
    using assms(1) by (rule trim_blank)
  with assms(2) have "textToSend messageText (inputValue st) = []"
    by (auto simp: textToSend_def)
  then have "handleSendMessage messageText now st = st"
    by (simp add: handleSendMessage_def)
  moreover have "handleSendMessage None now st = st"
    using blank by (simp add: handleSendMessage_def textToSend_def)
  ultimately show ?thesis
    using blank by (simp add: chatStep_def handleKeyPress_def)
qed

theorem blank_submit_noop_witness:
  "list_all isWhiteSpace (inputValue ((initial_cs 0)\<lparr>inputValue := [CHR 0x20, CHR 0x09]\<rparr>)) \<and>
   handleSendMessage None 1700000000000 ((initial_cs 0)\<lparr>inputValue := [CHR 0x20, CHR 0x09]\<rparr>)
     = (initial_cs 0)\<lparr>inputValue := [CHR 0x20, CHR 0x09]\<rparr> \<and>
   step_cs 1700000000000 (KeyPress ''Enter'' False) ((initial_cs 0)\<lparr>inputValue := [CHR 0x20, CHR 0x09]\<rparr>)
     = (initial_cs 0)\<lparr>inputValue := [CHR 0x20, CHR 0x09]\<rparr>"
proof -
  have h: "\<forall>c\<in>set (inputValue ((initial_cs 0)\<lparr>inputValue := [CHR 0x20, CHR 0x09]\<rparr>)). isWhiteSpace c"
    by (simp add: isWhiteSpace_def)
  show ?thesis
    using h blank_submit_noop [OF h, of None 1700000000000 getBotResponse_cs quickActions_cs]
    by (simp add: list_all_iff step_cs_def)
qed

section \<open>The order branch of the Nibbly resolver\<close>

lemma orderReply_other:
  "r \<in> set (map snd botResponses_nibbly @ keywordReplies_nibbly @ [defaultReply_nibbly]) \<Longrightarrow>
   r \<noteq> orderReply code"
  using foundReply_other notFoundReply_other
  by (auto simp: orderReply_def split: option.splits)

lemma orderMatch_leftmost:
  "orderMatch s = Some m \<Longrightarrow> \<exists>pre post. s = pre @ m @ post \<and> orderMatch (pre @ take 3 m) = None"
proof (induction s rule: orderMatch.induct)
  case (1 c d1 d2 d3 rest)
  show ?case
  proof (cases "(c = CHR ''n'' \<or> c = CHR ''N'') \<and> isDigit d1 \<and> isDigit d2 \<and> isDigit d3")
    case True
    with 1 have "m = [c, d1, d2, d3]" by auto
    then have "c # d1 # d2 # d3 # rest = [] @ m @ rest \<and> orderMatch ([] @ take 3 m) = None"
      by simp
    then show ?thesis by blast
  next
    case False
    from False 1(2) have "orderMatch (d1 # d2 # d3 # rest) = Some m"
      by (simp only: orderMatch.simps if_False)
    from 1(1) [OF False this] obtain pre post where p: "d1 # d2 # d3 # rest = pre @ m @ post"
      "orderMatch (pre @ take 3 m) = None" by blast
    from orderMatch_Some_shape [OF 1(2)] obtain x e1 e2 e3 where m: "m = [x, e1, e2, e3]"
      by blast
    from p(1) m obtain tl where tl: "pre @ take 3 m = d1 # d2 # d3 # tl"
      by (cases pre; cases "tl pre"; cases "tl (tl pre)") auto
    have "orderMatch ((c # pre) @ take 3 m) = None"
      using False p(2) tl by simp
    moreover have "c # d1 # d2 # d3 # rest = (c # pre) @ m @ post"
      using p(1) by simp
    ultimately show ?thesis by blast
  qed
qed simp_all

subsection \<open>Evaluations at concrete inputs\<close>

lemma lower_track: "toLowerCase ''please track N001 now'' = ''please track n001 now''"
  by (simp add: toLowerCase_def toLowerCase_char_def upperLetters_def lowerLetters_def)

lemma match_track: "orderMatch ''please track n001 now'' = Some ''n001''"
  by (simp add: isDigit_def)

lemma upper_n001: "toUpperCase ''n001'' = ''N001''"
  by (simp add: toUpperCase_def toUpperCase_char_def upperLetters_def lowerLetters_def)

lemma drone_N001:
  "droneLocations ''N001'' =
     Some \<lparr>location = \<lparr>lat = 40.7505, lng = - 73.9934, address = ''Near Washington Square Park''\<rparr>,
           eta = 4, status = ''In Transit''\<rparr>"
  by (simp add: droneLocations_def)

lemma lower_track_order: "toLowerCase ''track my order N001'' = ''track my order n001''"
  by (simp add: toLowerCase_def toLowerCase_char_def upperLetters_def lowerLetters_def)

lemma match_track_order: "orderMatch ''track my order n001'' = Some ''n001''"
  by (simp add: isDigit_def)

lemma trigger_track_order: "includes_str ''track my order n001'' (fst (botResponses_nibbly ! 0))"
  by (simp add: botResponses_nibbly_def)

lemma lower_status: "toLowerCase ''status of N999'' = ''status of n999''"
  by (simp add: toLowerCase_def toLowerCase_char_def upperLetters_def lowerLetters_def)

lemma match_status: "orderMatch ''status of n999'' = Some ''n999''"
  by (simp add: isDigit_def)

lemma upper_n999: "toUpperCase ''n999'' = ''N999''"
  by (simp add: toUpperCase_def toUpperCase_char_def upperLetters_def lowerLetters_def)

lemma drone_N999: "droneLocations ''N999'' = None"
  by (simp add: droneLocations_def)

lemma lower_two: "toLowerCase ''N001 N999'' = ''n001 n999''"
  by (simp add: toLowerCase_def toLowerCase_char_def upperLetters_def lowerLetters_def)

lemma match_two: "orderMatch ''n001 n999'' = Some ''n001''"
  by (simp add: isDigit_def)

subsection \<open>Priority of the order branch\<close>

text \<open>
  Claim C3. In the Nibbly file the order-code check comes first: when the lower-cased
  input holds an order code, the scan finds one (the leftmost), and the reply is the
  tracking reply for that code when \<open>droneLocations\<close> has it and the not-found reply for that
  code otherwise; the reply is never a reply of the rule table, of a keyword check, or the
  default reply, whatever trigger phrases the input holds besides.
\<close>

theorem order_code_priority:
  assumes "containsOrderCode (toLowerCase s)"
  shows "\<exists>m. orderMatch (toLowerCase s) = Some m \<and> sublist m (toLowerCase s) \<and>
           ((\<exists>d. droneLocations (toUpperCase m) = Some d \<and>
                 getBotResponse_nibbly s = foundReply (toUpperCase m) d) \<or>
            (droneLocations (toUpperCase m) = None \<and>
                 getBotResponse_nibbly s = notFoundReply (toUpperCase m))) \<and>
           getBotResponse_nibbly s \<notin> snd ` set botResponses_nibbly \<and>
           getBotResponse_nibbly s \<notin> set keywordReplies_nibbly \<and>
           getBotResponse_nibbly s \<noteq> defaultReply_nibbly"
proof -
  from assms obtain m where m: "orderMatch (toLowerCase s) = Some m"
    using orderMatch_None_iff [of "toLowerCase s"] by (cases "orderMatch (toLowerCase s)") auto
  then have sub: "sublist m (toLowerCase s)"
    using orderMatch_Some_shape by blast
  have r: "getBotResponse_nibbly s = orderReply (toUpperCase m)"
    using m by (rule getBotResponse_nibbly_order)
  then have branch: "(\<exists>d. droneLocations (toUpperCase m) = Some d \<and>
                 getBotResponse_nibbly s = foundReply (toUpperCase m) d) \<or>
            (droneLocations (toUpperCase m) = None \<and>
                 getBotResponse_nibbly s = notFoundReply (toUpperCase m))"
    by (cases "droneLocations (toUpperCase m)") (simp_all add: orderReply_def)
  have other: "getBotResponse_nibbly s \<notin> set (map snd botResponses_nibbly @ keywordReplies_nibbly @ [defaultReply_nibbly])"
    using orderReply_other [of "getBotResponse_nibbly s" "toUpperCase m"] r by auto
  then have "getBotResponse_nibbly s \<notin> snd ` set botResponses_nibbly"
    "getBotResponse_nibbly s \<notin> set keywordReplies_nibbly"
    "getBotResponse_nibbly s \<noteq> defaultReply_nibbly"
    by auto
  with m sub branch show ?thesis by blast
qed

theorem order_code_priority_witness:
  "containsOrderCode (toLowerCase ''please track N001 now'') \<and>
   getBotResponse_nibbly ''please track N001 now'' =
     foundReply ''N001''
       \<lparr>location = \<lparr>lat = 40.7505, lng = - 73.9934, address = ''Near Washington Square Park''\<rparr>,
        eta = 4, status = ''In Transit''\<rparr> \<and>
   getBotResponse_nibbly ''please track N001 now'' \<notin> snd ` set botResponses_nibbly \<and>
   includes_str (toLowerCase ''track my order N001'') (fst (botResponses_nibbly ! 0)) \<and>
   getBotResponse_nibbly ''track my order N001'' =
     foundReply ''N001''
       \<lparr>location = \<lparr>lat = 40.7505, lng = - 73.9934, address = ''Near Washington Square Park''\<rparr>,
        eta = 4, status = ''In Transit''\<rparr> \<and>
   getBotResponse_nibbly ''track my order N001'' \<notin> snd ` set botResponses_nibbly"
proof -
  have found: "orderMatch (toLowerCase ''please track N001 now'') = Some ''n001''"
    by (simp only: lower_track match_track)
  then have c: "containsOrderCode (toLowerCase ''please track N001 now'')"
    using orderMatch_None_iff [of "toLowerCase ''please track N001 now''"] by simp
  from order_code_priority [OF c] obtain m where
    m: "orderMatch (toLowerCase ''please track N001 now'') = Some m"
    and r: "(\<exists>d. droneLocations (toUpperCase m) = Some d \<and>
                 getBotResponse_nibbly ''please track N001 now'' = foundReply (toUpperCase m) d) \<or>
            (droneLocations (toUpperCase m) = None \<and>
                 getBotResponse_nibbly ''please track N001 now'' = notFoundReply (toUpperCase m))"
    and t: "getBotResponse_nibbly ''please track N001 now'' \<notin> snd ` set botResponses_nibbly"
    by blast
  from m found have "m = ''n001''" by simp
  with r have first: "getBotResponse_nibbly ''please track N001 now'' =
     foundReply ''N001''
       \<lparr>location = \<lparr>lat = 40.7505, lng = - 73.9934, address = ''Near Washington Square Park''\<rparr>,
        eta = 4, status = ''In Transit''\<rparr>"
    by (simp add: upper_n001 drone_N001)
  have found': "orderMatch (toLowerCase ''track my order N001'') = Some ''n001''"
    by (simp only: lower_track_order match_track_order)
  then have c': "containsOrderCode (toLowerCase ''track my order N001'')"
    using orderMatch_None_iff [of "toLowerCase ''track my order N001''"] by simp
  from order_code_priority [OF c'] obtain m' where
    m': "orderMatch (toLowerCase ''track my order N001'') = Some m'"
    and r': "(\<exists>d. droneLocations (toUpperCase m') = Some d \<and>
                 getBotResponse_nibbly ''track my order N001'' = foundReply (toUpperCase m') d) \<or>
            (droneLocations (toUpperCase m') = None \<and>
                 getBotResponse_nibbly ''track my order N001'' = notFoundReply (toUpperCase m'))"
    and t': "getBotResponse_nibbly ''track my order N001'' \<notin> snd ` set botResponses_nibbly"
    by blast
  from m' found' have "m' = ''n001''" by simp
  with r' have second: "getBotResponse_nibbly ''track my order N001'' =
     foundReply ''N001''
       \<lparr>location = \<lparr>lat = 40.7505, lng = - 73.9934, address = ''Near Washington Square Park''\<rparr>,
        eta = 4, status = ''In Transit''\<rparr>"
    by (simp add: upper_n001 drone_N001)
  have trigger: "includes_str (toLowerCase ''track my order N001'') (fst (botResponses_nibbly ! 0))"
    using trigger_track_order by (simp only: lower_track_order)
  from c first t trigger second t' show ?thesis
    by (intro conjI)
qed

subsection \<open>Codes that are not in the tracking table\<close>

text \<open>
  Claim C5, as amended. When the order code that the scan finds (the leftmost one of the
  input) is not a key of \<open>droneLocations\<close>, the reply is the not-found reply naming that
  code, and that reply differs from the default reply. The resolver is a total function
  to strings, so the miss is an ordinary result.
\<close>

theorem unknown_order_code_reply:
  assumes "orderMatch (toLowerCase s) = Some m"
    and "droneLocations (toUpperCase m) = None"
  shows "getBotResponse_nibbly s = notFoundReply (toUpperCase m) \<and>
         notFoundReply (toUpperCase m) \<noteq> defaultReply_nibbly"
proof -
  have "getBotResponse_nibbly s = notFoundReply (toUpperCase m)"
    using getBotResponse_nibbly_order [OF assms(1)] assms(2) by (simp add: orderReply_def)
  moreover have "defaultReply_nibbly \<noteq> notFoundReply (toUpperCase m)"
    by (rule notFoundReply_other) simp
  ultimately show ?thesis by auto
qed

theorem unknown_order_code_reply_witness:
  "orderMatch (toLowerCase ''status of N999'') = Some ''n999'' \<and>
   droneLocations (toUpperCase ''n999'') = None \<and>
   getBotResponse_nibbly ''status of N999'' = notFoundReply ''N999'' \<and>
   notFoundReply ''N999'' \<noteq> defaultReply_nibbly"
proof -
  have m: "orderMatch (toLowerCase ''status of N999'') = Some ''n999''"
    by (simp only: lower_status match_status)
  have d: "droneLocations (toUpperCase ''n999'') = None"
    by (simp only: upper_n999 drone_N999)
  show ?thesis
    using m d unknown_order_code_reply [OF m d] by (simp add: upper_n999)
qed

text \<open>
  The claim as stated speaks of every input that holds an unknown code. The input
  \<open>N001 N999\<close> holds the unknown code N999, but the scan stops at N001, which is known, and
  the reply is the tracking reply for N001.
\<close>

theorem unknown_code_after_known_counterexample:
  "sublist ''N999'' ''N001 N999'' \<and> droneLocations ''N999'' = None \<and>
   getBotResponse_nibbly ''N001 N999'' =
     foundReply ''N001''
       \<lparr>location = \<lparr>lat = 40.7505, lng = - 73.9934, address = ''Near Washington Square Park''\<rparr>,
        eta = 4, status = ''In Transit''\<rparr> \<and>
   getBotResponse_nibbly ''N001 N999'' \<noteq> notFoundReply ''N999''"
proof -
  have m: "orderMatch (toLowerCase ''N001 N999'') = Some ''n001''"
    by (simp only: lower_two match_two)
  have r: "getBotResponse_nibbly ''N001 N999'' =
     foundReply ''N001''
       \<lparr>location = \<lparr>lat = 40.7505, lng = - 73.9934, address = ''Near Washington Square Park''\<rparr>,
        eta = 4, status = ''In Transit''\<rparr>"
    using getBotResponse_nibbly_order [OF m] by (simp add: orderReply_def upper_n001 drone_N001)
  have "foundReply ''N001''
       \<lparr>location = \<lparr>lat = 40.7505, lng = - 73.9934, address = ''Near Washington Square Park''\<rparr>,
        eta = 4, status = ''In Transit''\<rparr> \<noteq> notFoundReply ''N999''"
    by (simp add: foundReply_def notFoundReply_def)
  moreover have "sublist ''N999'' ''N001 N999''"
    by (simp add: sublist_Cons_right)
  ultimately show ?thesis using r drone_N999 by (simp only: not_False_eq_True simp_thms)
qed

subsection \<open>Which inputs the scan recognizes\<close>

lemma no_order_reply_without_code:
  assumes "\<not> containsOrderCode s"
  shows "getBotResponse_nibbly s \<in> set (map snd botResponses_nibbly @ keywordReplies_nibbly @ [defaultReply_nibbly])"
proof -
  have none: "orderMatch (toLowerCase s) = None"
    using assms by (simp add: orderMatch_None_iff containsOrderCode_lower)
  show ?thesis
  proof (cases "tableLookup botResponses_nibbly (toLowerCase s)")
    case None
    from getBotResponse_nibbly_keywords [OF none None] show ?thesis
      by (simp only: set_append) blast
  next
    case (Some r)
    then obtain k where "(k, r) \<in> set botResponses_nibbly" using tableLookup_Some by blast
    then have "r \<in> snd ` set botResponses_nibbly" by force
    with getBotResponse_nibbly_table [OF none Some] show ?thesis by simp
  qed
qed

lemma lower_n002: "toLowerCase ''Status of n002?'' = ''status of n002?''"
  by (simp add: toLowerCase_def toLowerCase_char_def upperLetters_def lowerLetters_def)

lemma match_n002: "orderMatch ''status of n002?'' = Some ''n002''"
  by (simp add: isDigit_def)

lemma upper_n002: "toUpperCase ''n002'' = ''N002''"
  by (simp add: toUpperCase_def toUpperCase_char_def upperLetters_def lowerLetters_def)

lemma match_hello: "orderMatch ''hello'' = None"
  by (simp add: isDigit_def)

text \<open>
  Claim C6. The scan of the Nibbly resolver finds a code exactly when the input holds,
  in either case, the letter N followed by three digits. An input with no such substring
  never gets a tracking reply or a not-found reply, for any code and any tracking data.
  When the scan finds a code, the matched text is the lower-cased form of a substring of
  the input, and the code that is looked up and named in the reply is that substring in
  upper case.
\<close>

theorem order_code_recognition:
  "(orderMatch (toLowerCase s) \<noteq> None \<longleftrightarrow> containsOrderCode s) \<and>
   (\<not> containsOrderCode s \<longrightarrow>
      (\<forall>code d. getBotResponse_nibbly s \<noteq> foundReply code d \<and>
                getBotResponse_nibbly s \<noteq> notFoundReply code)) \<and>
   (\<forall>m. orderMatch (toLowerCase s) = Some m \<longrightarrow>
      (\<exists>w. sublist w s \<and> toLowerCase w = m \<and> toUpperCase w = toUpperCase m \<and>
           getBotResponse_nibbly s = orderReply (toUpperCase w)))"
proof (intro conjI allI impI)
  show "orderMatch (toLowerCase s) \<noteq> None \<longleftrightarrow> containsOrderCode s"
    by (simp add: orderMatch_None_iff containsOrderCode_lower)
next
  fix code d
  assume "\<not> containsOrderCode s"
  then have "getBotResponse_nibbly s \<in> set (map snd botResponses_nibbly @ keywordReplies_nibbly @ [defaultReply_nibbly])"
    by (rule no_order_reply_without_code)
  then show "getBotResponse_nibbly s \<noteq> foundReply code d"
    and "getBotResponse_nibbly s \<noteq> notFoundReply code"
    by (rule foundReply_other, rule notFoundReply_other)
next
  fix m
  assume m: "orderMatch (toLowerCase s) = Some m"
  from orderMatch_lower_source [OF m] obtain w where
    "sublist w s" "toLowerCase w = m" "toUpperCase w = toUpperCase m" by blast
  with getBotResponse_nibbly_order [OF m]
  show "\<exists>w. sublist w s \<and> toLowerCase w = m \<and> toUpperCase w = toUpperCase m \<and>
            getBotResponse_nibbly s = orderReply (toUpperCase w)"
    by auto
qed

theorem order_code_recognition_witness:
  "containsOrderCode ''Status of n002?'' \<and>
   getBotResponse_nibbly ''Status of n002?'' = orderReply ''N002'' \<and>
   \<not> containsOrderCode ''hello'' \<and>
   getBotResponse_nibbly ''hello'' \<noteq> notFoundReply ''N002''"
proof -
  have m: "orderMatch (toLowerCase ''Status of n002?'') = Some ''n002''"
    by (simp only: lower_n002 match_n002)
  from order_code_recognition [of "''Status of n002?''"] m
  have c: "containsOrderCode ''Status of n002?''" by simp
  from order_code_recognition [of "''Status of n002?''"] m obtain w where
    "toUpperCase w = toUpperCase ''n002''"
    "getBotResponse_nibbly ''Status of n002?'' = orderReply (toUpperCase w)" by blast
  then have r: "getBotResponse_nibbly ''Status of n002?'' = orderReply ''N002''"
    by (simp only: upper_n002)
  have h: "\<not> containsOrderCode ''hello''"
    using orderMatch_None_iff [of "''hello''"] match_hello by simp
  with order_code_recognition [of "''hello''"]
  have "getBotResponse_nibbly ''hello'' \<noteq> notFoundReply ''N002''" by blast
  with c r h show ?thesis by blast
qed

section \<open>The trigger phrase with a capital letter\<close>

lemma lower_excludes_capital_key:
  assumes "c \<in> set key" and "c \<in> set upperLetters"
  shows "\<not> includes_str (toLowerCase s) key"
proof
  assume "includes_str (toLowerCase s) key"
  then have "set key \<subseteq> set (toLowerCase s)"
    unfolding includes_str_sublist by (rule set_mono_sublist)
  with assms(1) obtain d where "toLowerCase_char d = c"
    by (auto simp: toLowerCase_def)
  with toLowerCase_char_not_upper [of d] assms(2) show False by simp
qed

lemma lower_excludes_help: "\<not> includes_str (toLowerCase s) ''I need help''"
  by (rule lower_excludes_capital_key [of "CHR ''I''"]) (simp_all add: upperLetters_def)

lemma help_nibbly: "map_of botResponses_nibbly ''I need help'' = Some (snd (botResponses_nibbly ! 2))"
  by (simp add: botResponses_nibbly_def)

lemma help_cs: "map_of botResponses_cs ''I need help'' = Some (snd (botResponses_cs ! 2))"
  by (simp add: botResponses_cs_def)

lemma help_key_nibbly:
  "(k, snd (botResponses_nibbly ! 2)) \<in> set botResponses_nibbly \<Longrightarrow> k = ''I need help''"
  by (simp add: botResponses_nibbly_def)

lemma help_key_cs:
  "(k, snd (botResponses_cs ! 2)) \<in> set botResponses_cs \<Longrightarrow> k = ''I need help''"
  by (simp add: botResponses_cs_def)

lemma help_not_keyword_nibbly:
  "snd (botResponses_nibbly ! 2) \<notin> set (keywordReplies_nibbly @ [defaultReply_nibbly])"
  by (simp add: botResponses_nibbly_def keywordReplies_nibbly_def defaultReply_nibbly_def
      droneReply_def etaReply_def thankReply_nibbly_def byeReply_nibbly_def)

lemma help_not_keyword_cs:
  "snd (botResponses_cs ! 2) \<notin> set (keywordReplies_cs @ [defaultReply_cs])"
  by (simp add: botResponses_cs_def keywordReplies_cs_def defaultReply_cs_def
      orderStatusReply_def cancelReply_def thankReply_cs_def byeReply_cs_def)

lemma help_in_table_nibbly:
  "snd (botResponses_nibbly ! 2) \<in> set (map snd botResponses_nibbly @ keywordReplies_nibbly @ [defaultReply_nibbly])"
  by (simp add: botResponses_nibbly_def)

lemma never_help_nibbly: "getBotResponse_nibbly s \<noteq> snd (botResponses_nibbly ! 2)"
proof (cases "orderMatch (toLowerCase s)")
  case (Some m)
  from getBotResponse_nibbly_order [OF Some] orderReply_other [OF help_in_table_nibbly]
  show ?thesis by metis
next
  case None
  show ?thesis
  proof (cases "tableLookup botResponses_nibbly (toLowerCase s)")
    case none: None
    from getBotResponse_nibbly_keywords [OF None none] help_not_keyword_nibbly
    show ?thesis by metis
  next
    case (Some r)
    then obtain k where k: "(k, r) \<in> set botResponses_nibbly" "includes_str (toLowerCase s) k"
      using tableLookup_Some by blast
    have "r \<noteq> snd (botResponses_nibbly ! 2)"
    proof
      assume "r = snd (botResponses_nibbly ! 2)"
      with k(1) have "k = ''I need help''" using help_key_nibbly by blast
      with k(2) lower_excludes_help show False by blast
    qed
    with getBotResponse_nibbly_table [OF None Some] show ?thesis by simp
  qed
qed

lemma never_help_cs: "getBotResponse_cs s \<noteq> snd (botResponses_cs ! 2)"
proof (cases "tableLookup botResponses_cs (toLowerCase s)")
  case None
  from getBotResponse_cs_keywords [OF None] help_not_keyword_cs
  show ?thesis by metis
next
  case (Some r)
  then obtain k where k: "(k, r) \<in> set botResponses_cs" "includes_str (toLowerCase s) k"
    using tableLookup_Some by blast
  have "r \<noteq> snd (botResponses_cs ! 2)"
  proof
    assume "r = snd (botResponses_cs ! 2)"
    with k(1) have "k = ''I need help''" using help_key_cs by blast
    with k(2) lower_excludes_help show False by blast
  qed
  with getBotResponse_cs_table [OF Some] show ?thesis by simp
qed

lemma lower_help: "toLowerCase ''I need help'' = ''i need help''"
  by (simp add: toLowerCase_def toLowerCase_char_def upperLetters_def lowerLetters_def)

lemma match_help: "orderMatch ''i need help'' = None"
  by (simp add: isDigit_def)

lemma table_help_nibbly: "tableLookup botResponses_nibbly ''i need help'' = None"
  by (simp add: botResponses_nibbly_def)

lemma table_help_cs: "tableLookup botResponses_cs ''i need help'' = None"
  by (simp add: botResponses_cs_def)

lemma help_query_nibbly: "getBotResponse_nibbly ''I need help'' = defaultReply_nibbly"
  by (simp add: getBotResponse_nibbly_def Let_def lower_help match_help table_help_nibbly
      del: orderMatch.simps tableLookup.simps)

lemma help_query_cs: "getBotResponse_cs ''I need help'' = defaultReply_cs"
  by (simp add: getBotResponse_cs_def Let_def lower_help table_help_cs del: tableLookup.simps)

text \<open>
  Claim C10. The message is lower-cased before the table is searched, and the keys are
  compared as they are written, so the key \<open>I need help\<close> is never included in the message.
  In both files the reply stored under that key is never returned, for any input, and the
  query of the Help quick action, which is that very phrase, gets the default reply.
\<close>

theorem help_trigger_never_matches:
  "\<not> includes_str (toLowerCase s) ''I need help'' \<and>
   (\<exists>r. map_of botResponses_nibbly ''I need help'' = Some r \<and> getBotResponse_nibbly s \<noteq> r) \<and>
   (\<exists>r. map_of botResponses_cs ''I need help'' = Some r \<and> getBotResponse_cs s \<noteq> r) \<and>
   query (quickActions_nibbly ! 2) = ''I need help'' \<and>
   getBotResponse_nibbly (query (quickActions_nibbly ! 2)) = defaultReply_nibbly \<and>
   query (quickActions_cs ! 2) = ''I need help'' \<and>
   getBotResponse_cs (query (quickActions_cs ! 2)) = defaultReply_cs"
proof -
  have q: "query (quickActions_nibbly ! 2) = ''I need help''" "query (quickActions_cs ! 2) = ''I need help''"
    by (simp_all add: quickActions_nibbly_def quickActions_cs_def)
  show ?thesis
    using lower_excludes_help [of s] help_nibbly help_cs never_help_nibbly [of s] never_help_cs [of s]
      help_query_nibbly help_query_cs
    unfolding q by blast
qed

section \<open>The rule table\<close>

lemma before_index:
  "list_all P (take i xs) \<Longrightarrow> i \<le> length xs \<Longrightarrow> \<forall>j<i. P (xs ! j)"
  by (simp add: list_all_length)

lemma lower_refund: "toLowerCase ''Refund my wrong order'' = ''refund my wrong order''"
  by (simp add: toLowerCase_def toLowerCase_char_def upperLetters_def lowerLetters_def)

lemma lower_password: "toLowerCase ''Password for my account'' = ''password for my account''"
  by (simp add: toLowerCase_def toLowerCase_char_def upperLetters_def lowerLetters_def)

lemma match_refund: "orderMatch ''refund my wrong order'' = None"
  by (simp add: isDigit_def)

lemma keys_refund:
  "fst (botResponses_nibbly ! 1) = ''wrong order''" "fst (botResponses_nibbly ! 5) = ''refund''"
  by (simp_all add: botResponses_nibbly_def)

lemma in_refund:
  "includes_str ''refund my wrong order'' ''wrong order''"
  "includes_str ''refund my wrong order'' ''refund''"
  by simp_all

lemma before_wrong_order:
  "\<forall>j<1. \<not> includes_str ''refund my wrong order'' (fst (botResponses_nibbly ! j))"
proof (rule before_index)
  show "list_all (\<lambda>e. \<not> includes_str ''refund my wrong order'' (fst e)) (take 1 botResponses_nibbly)"
    by (simp add: botResponses_nibbly_def)
  show "1 \<le> length botResponses_nibbly"
    by (simp add: botResponses_nibbly_def)
qed

lemma keys_password:
  "fst (botResponses_cs ! 9) = ''account''" "fst (botResponses_cs ! 10) = ''password''"
  by (simp_all add: botResponses_cs_def)

lemma in_password:
  "includes_str ''password for my account'' ''account''"
  "includes_str ''password for my account'' ''password''"
  by simp_all

lemma before_account:
  "\<forall>j<9. \<not> includes_str ''password for my account'' (fst (botResponses_cs ! j))"
proof (rule before_index)
  show "list_all (\<lambda>e. \<not> includes_str ''password for my account'' (fst e)) (take 9 botResponses_cs)"
    by (simp add: botResponses_cs_def)
  show "9 \<le> length botResponses_cs"
    by (simp add: botResponses_cs_def)
qed

text \<open>
  Claim C4. The table is searched in the order of its entries and the first entry whose
  key is a substring of the lower-cased input decides: when the key of entry \<open>i\<close> occurs in
  the input and no key of an earlier entry does (and, in the Nibbly file, the input holds
  no order code), the reply is the reply of entry \<open>i\<close>, wherever the keys stand in the
  input and whichever later keys occur as well.
\<close>

theorem rule_table_first_match_wins:
  "(i < length botResponses_nibbly \<and>
    sublist (fst (botResponses_nibbly ! i)) (toLowerCase s) \<and>
    (\<forall>j<i. \<not> sublist (fst (botResponses_nibbly ! j)) (toLowerCase s)) \<and>
    \<not> containsOrderCode s
    \<longrightarrow> getBotResponse_nibbly s = snd (botResponses_nibbly ! i)) \<and>
   (i < length botResponses_cs \<and>
    sublist (fst (botResponses_cs ! i)) (toLowerCase s) \<and>
    (\<forall>j<i. \<not> sublist (fst (botResponses_cs ! j)) (toLowerCase s))
    \<longrightarrow> getBotResponse_cs s = snd (botResponses_cs ! i))"
proof (intro conjI impI)
  assume a: "i < length botResponses_nibbly \<and>
    sublist (fst (botResponses_nibbly ! i)) (toLowerCase s) \<and>
    (\<forall>j<i. \<not> sublist (fst (botResponses_nibbly ! j)) (toLowerCase s)) \<and>
    \<not> containsOrderCode s"
  then have none: "orderMatch (toLowerCase s) = None"
    by (simp add: orderMatch_None_iff containsOrderCode_lower)
  from a have "i < length botResponses_nibbly"
    "includes_str (toLowerCase s) (fst (botResponses_nibbly ! i))"
    "\<forall>j<i. \<not> includes_str (toLowerCase s) (fst (botResponses_nibbly ! j))"
    unfolding includes_str_sublist by blast+
  then have "tableLookup botResponses_nibbly (toLowerCase s) = Some (snd (botResponses_nibbly ! i))"
    by (rule tableLookup_first)
  with none show "getBotResponse_nibbly s = snd (botResponses_nibbly ! i)"
    by (rule getBotResponse_nibbly_table)
next
  assume a: "i < length botResponses_cs \<and>
    sublist (fst (botResponses_cs ! i)) (toLowerCase s) \<and>
    (\<forall>j<i. \<not> sublist (fst (botResponses_cs ! j)) (toLowerCase s))"
  then have "i < length botResponses_cs"
    "includes_str (toLowerCase s) (fst (botResponses_cs ! i))"
    "\<forall>j<i. \<not> includes_str (toLowerCase s) (fst (botResponses_cs ! j))"
    unfolding includes_str_sublist by blast+
  then have "tableLookup botResponses_cs (toLowerCase s) = Some (snd (botResponses_cs ! i))"
    by (rule tableLookup_first)
  then show "getBotResponse_cs s = snd (botResponses_cs ! i)"
    by (rule getBotResponse_cs_table)
qed

theorem rule_table_first_match_wins_witness:
  "sublist ''refund'' (toLowerCase ''Refund my wrong order'') \<and>
   sublist ''wrong order'' (toLowerCase ''Refund my wrong order'') \<and>
   getBotResponse_nibbly ''Refund my wrong order'' = snd (botResponses_nibbly ! 1) \<and>
   fst (botResponses_nibbly ! 1) = ''wrong order'' \<and>
   sublist ''password'' (toLowerCase ''Password for my account'') \<and>
   sublist ''account'' (toLowerCase ''Password for my account'') \<and>
   getBotResponse_cs ''Password for my account'' = snd (botResponses_cs ! 9) \<and>
   fst (botResponses_cs ! 9) = ''account''"
proof -
  have n1: "(1::nat) < length botResponses_nibbly"
    by (simp add: botResponses_nibbly_def)
  have n2: "sublist (fst (botResponses_nibbly ! 1)) (toLowerCase ''Refund my wrong order'')"
    using in_refund(1) by (simp only: keys_refund(1) lower_refund includes_str_sublist)
  have n3: "\<forall>j<1. \<not> sublist (fst (botResponses_nibbly ! j)) (toLowerCase ''Refund my wrong order'')"
    using before_wrong_order by (simp only: lower_refund includes_str_sublist)
  have "orderMatch (toLowerCase ''Refund my wrong order'') = None"
    by (simp only: lower_refund match_refund)
  then have n4: "\<not> containsOrderCode ''Refund my wrong order''"
    using orderMatch_None_iff containsOrderCode_lower by blast
  have c1: "(9::nat) < length botResponses_cs"
    by (simp add: botResponses_cs_def)
  have c2: "sublist (fst (botResponses_cs ! 9)) (toLowerCase ''Password for my account'')"
    using in_password(1) by (simp only: keys_password(1) lower_password includes_str_sublist)
  have c3: "\<forall>j<9. \<not> sublist (fst (botResponses_cs ! j)) (toLowerCase ''Password for my account'')"
    using before_account by (simp only: lower_password includes_str_sublist)
  have r1: "getBotResponse_nibbly ''Refund my wrong order'' = snd (botResponses_nibbly ! 1)"
    using rule_table_first_match_wins [of 1 "''Refund my wrong order''"] n1 n2 n3 n4 by blast
  have r2: "getBotResponse_cs ''Password for my account'' = snd (botResponses_cs ! 9)"
    using rule_table_first_match_wins [of 9 "''Password for my account''"] c1 c2 c3 by blast
  have s1: "sublist ''refund'' (toLowerCase ''Refund my wrong order'')"
    using in_refund(2) by (simp only: lower_refund includes_str_sublist)
  have s2: "sublist ''password'' (toLowerCase ''Password for my account'')"
    using in_password(2) by (simp only: lower_password includes_str_sublist)
  have s3: "sublist ''wrong order'' (toLowerCase ''Refund my wrong order'')"
    using n2 by (simp only: keys_refund(1))
  have s4: "sublist ''account'' (toLowerCase ''Password for my account'')"
    using c2 by (simp only: keys_password(1))
  from s1 s3 r1 keys_refund(1) s2 s4 r2 keys_password(1) show ?thesis
    by (intro conjI)
qed

section \<open>The resolver as a function\<close>

lemma replies_nonempty_nibbly:
  "r \<in> set (map snd botResponses_nibbly @ keywordReplies_nibbly @ [defaultReply_nibbly]) \<Longrightarrow> r \<noteq> []"
  by (auto simp: botResponses_nibbly_def keywordReplies_nibbly_def defaultReply_nibbly_def
      droneReply_def etaReply_def thankReply_nibbly_def byeReply_nibbly_def)

lemma replies_nonempty_cs:
  "r \<in> set (map snd botResponses_cs @ keywordReplies_cs @ [defaultReply_cs]) \<Longrightarrow> r \<noteq> []"
  by (auto simp: botResponses_cs_def keywordReplies_cs_def defaultReply_cs_def
      orderStatusReply_def cancelReply_def thankReply_cs_def byeReply_cs_def)

lemma orderReply_nonempty: "orderReply code \<noteq> []"
  by (simp add: orderReply_def foundReply_def notFoundReply_def split: option.splits)

lemma reply_range_nibbly:
  "getBotResponse_nibbly s \<in> set (map snd botResponses_nibbly @ keywordReplies_nibbly @ [defaultReply_nibbly])
   \<or> (\<exists>code. getBotResponse_nibbly s = orderReply code)"
proof (cases "orderMatch (toLowerCase s)")
  case None
  then have "\<not> containsOrderCode s"
    by (simp add: orderMatch_None_iff containsOrderCode_lower)
  then show ?thesis using no_order_reply_without_code by blast
next
  case (Some m)
  then show ?thesis using getBotResponse_nibbly_order by blast
qed

lemma reply_range_cs:
  "getBotResponse_cs s \<in> set (map snd botResponses_cs @ keywordReplies_cs @ [defaultReply_cs])"
proof (cases "tableLookup botResponses_cs (toLowerCase s)")
  case None
  from getBotResponse_cs_keywords [OF None] show ?thesis
    by (simp only: set_append) blast
next
  case (Some r)
  then obtain k where "(k, r) \<in> set botResponses_cs" using tableLookup_Some by blast
  then have "r \<in> snd ` set botResponses_cs" by force
  with getBotResponse_cs_table [OF Some] show ?thesis by simp
qed

lemma same_lower_same_reply:
  "toLowerCase s = toLowerCase s' \<Longrightarrow>
   getBotResponse_nibbly s = getBotResponse_nibbly s' \<and> getBotResponse_cs s = getBotResponse_cs s'"
  by (simp add: getBotResponse_nibbly_def getBotResponse_cs_def)

lemma tableLoop_result: "tableLoop entries message w = (Inr (tableLookup entries message), w)"
  by (induction entries message rule: tableLookup.induct) (simp_all add: return_val_def)

lemma keyword_chain_return:
  "(if c1 then return_val a1
    else if c2 then return_val a2
    else if c3 then return_val a3
    else if c4 then return_val a4
    else return_val a5) =
   return_val (if c1 then a1 else if c2 then a2 else if c3 then a3 else if c4 then a4 else a5)"
  by simp

lemma bind_return_val: "bind_comp (return_val x) f = f x"
  by (simp add: bind_comp_def return_val_def)

lemma tableLoop_return: "tableLoop entries message = return_val (tableLookup entries message)"
  by (rule ext) (simp add: tableLoop_result return_val_def)

lemma getBotResponseM_nibbly_return:
  "getBotResponseM_nibbly s = return_val (getBotResponse_nibbly s)"
proof (cases "orderMatch (toLowerCase s)")
  case None
  show ?thesis
  proof (cases "tableLookup botResponses_nibbly (toLowerCase s)")
    case none: None
    show ?thesis
      unfolding getBotResponseM_nibbly_def getBotResponse_nibbly_def
      by (simp add: None none Let_def tableLoop_return bind_return_val split del: if_split)
        (rule keyword_chain_return)
  next
    case (Some r)
    show ?thesis
      unfolding getBotResponseM_nibbly_def getBotResponse_nibbly_def
      by (simp add: None Some Let_def tableLoop_return bind_return_val split del: if_split)
  qed
next
  case (Some m)
  show ?thesis
  proof (cases "droneLocations (toUpperCase m)")
    case None
    show ?thesis
      unfolding getBotResponseM_nibbly_def getBotResponse_nibbly_def
      by (simp add: Some None Let_def element0_def bind_return_val split del: if_split)
  next
    case found: (Some d)
    show ?thesis
      unfolding getBotResponseM_nibbly_def getBotResponse_nibbly_def
      by (simp add: Some found Let_def element0_def propertiesOf_def bind_return_val
          split del: if_split)
  qed
qed

lemma getBotResponseM_cs_return:
  "getBotResponseM_cs s = return_val (getBotResponse_cs s)"
proof (cases "tableLookup botResponses_cs (toLowerCase s)")
  case None
  show ?thesis
    unfolding getBotResponseM_cs_def getBotResponse_cs_def
    by (simp add: None Let_def tableLoop_return bind_return_val split del: if_split)
      (rule keyword_chain_return)
next
  case (Some r)
  show ?thesis
    unfolding getBotResponseM_cs_def getBotResponse_cs_def
    by (simp add: Some Let_def tableLoop_return bind_return_val split del: if_split)
qed

text \<open>
  Claim C9. Run as a computation in the component state, each resolver ends for every
  input and every state with a value and never with an exception (total), leaves the
  state exactly as it found it (no side effect), and its value does not depend on the
  state it runs in: two calls with the same input give the same reply (deterministic).
  The value is the reply that the function \<open>getBotResponse\<close> of the file computes from the
  input alone, and it is never the empty string.
\<close>

theorem resolver_total_pure_deterministic:
  "getBotResponseM_nibbly s st = (Inr (getBotResponse_nibbly s), st) \<and>
   getBotResponseM_cs s st = (Inr (getBotResponse_cs s), st) \<and>
   fst (getBotResponseM_nibbly s st) = fst (getBotResponseM_nibbly s st') \<and>
   fst (getBotResponseM_cs s st) = fst (getBotResponseM_cs s st') \<and>
   getBotResponse_nibbly s \<noteq> [] \<and> getBotResponse_cs s \<noteq> []"
proof -
  have "getBotResponse_nibbly s \<noteq> []"
    using reply_range_nibbly [of s] replies_nonempty_nibbly orderReply_nonempty by metis
  moreover have "getBotResponse_cs s \<noteq> []"
    using reply_range_cs [of s] replies_nonempty_cs by blast
  ultimately show ?thesis
    by (simp add: getBotResponseM_nibbly_return getBotResponseM_cs_return return_val_def)
qed

section \<open>Sending a message and the delayed reply\<close>

lemma typing_blocks_input:
  assumes "isTyping st"
  shows "chatStep resolve actions now (Change v) st = st"
    and "chatStep resolve actions now (KeyPress key shiftKey) st = st"
    and "chatStep resolve actions now ClickSend st = st"
  using assms by (simp_all add: chatStep_def)

lemma handleSendMessage_sends:
  assumes "textToSend messageText (inputValue st) = t" and "t \<noteq> []"
  shows "handleSendMessage messageText now st =
           st\<lparr>messages := messages st @ [\<lparr>id_msg = toString_nat now, text_msg = t, sender = User, timestamp = now\<rparr>],
               inputValue := [], isTyping := True, timers := timers st @ [(now + 1500, t)]\<rparr>"
  using assms by (simp add: handleSendMessage_def Let_def)

lemma trim_hello: "trim '' hello '' = ''hello''"
  by (simp add: trim_def isWhiteSpace_def)

lemma lower_hello_plain: "toLowerCase ''hello'' = ''hello''"
  by (simp add: toLowerCase_def toLowerCase_char_def upperLetters_def lowerLetters_def)

lemma table_hello_cs: "tableLookup botResponses_cs ''hello'' = Some (snd (botResponses_cs ! 3))"
  by (simp add: botResponses_cs_def)

lemma reply_hello_cs: "getBotResponse_cs ''hello'' = snd (botResponses_cs ! 3)"
  by (rule getBotResponse_cs_table) (simp only: lower_hello_plain table_hello_cs)

lemma digits_2000: "toString_nat 2000 = ''2000''" "toString_nat (3500 + 1) = ''3501''"
  by (simp_all add: toString_nat.simps)

lemma trim_plain_hello: "trim ''hello'' = ''hello''"
  by (simp add: trim_def isWhiteSpace_def)

lemma trim_blank_one: "trim '' '' = []" "trim '' hi'' = ''hi''"
  by (simp_all add: trim_def isWhiteSpace_def)

lemma digits_ids:
  "toString_nat 1700000000000 = ''1700000000000''"
  "toString_nat (1700000001500 + 1) = ''1700000001501''"
  "toString_nat 1700000001501 = ''1700000001501''"
  by (simp_all add: toString_nat.simps)

lemma pending_reply_step:
  assumes "isTyping st" and "timers st = (due, t) # rest" and "now < due"
  shows "isTyping (chatStep resolve actions now ev st) \<and>
         (\<exists>rest'. timers (chatStep resolve actions now ev st) = (due, t) # rest') \<and>
         (\<exists>new. messages (chatStep resolve actions now ev st) = messages st @ new \<and>
                (\<forall>m\<in>set new. sender m = User))"
proof (cases ev)
  case (ClickQuickAction i)
  show ?thesis
  proof (cases "i < length actions \<and> textToSend (Some (query (actions ! i))) (inputValue st) \<noteq> []")
    case True
    then have "chatStep resolve actions now ev st =
        st\<lparr>messages := messages st @
               [\<lparr>id_msg = toString_nat now,
                 text_msg = textToSend (Some (query (actions ! i))) (inputValue st),
                 sender = User, timestamp = now\<rparr>],
           inputValue := [], isTyping := True,
           timers := timers st @
               [(now + 1500, textToSend (Some (query (actions ! i))) (inputValue st))]\<rparr>"
      using ClickQuickAction by (simp add: chatStep_def handleSendMessage_def Let_def)
    then show ?thesis using assms(2) by simp
  next
    case False
    then have "chatStep resolve actions now ev st = st"
      using ClickQuickAction by (auto simp: chatStep_def handleSendMessage_def Let_def)
    then show ?thesis using assms by simp
  qed
next
  case TimerFires
  then have "chatStep resolve actions now ev st = st"
    using assms(2,3) by (simp add: chatStep_def)
  then show ?thesis using assms by simp
qed (use assms in \<open>simp_all add: chatStep_def\<close>)

lemma pending_reply_run:
  assumes "isTyping st" and "timers st = (due, t) # rest" and "\<forall>e\<in>set evs. fst e < due"
  shows "isTyping (run (chatStep resolve actions) evs st) \<and>
         (\<exists>rest'. timers (run (chatStep resolve actions) evs st) = (due, t) # rest') \<and>
         (\<exists>new. messages (run (chatStep resolve actions) evs st) = messages st @ new \<and>
                (\<forall>m\<in>set new. sender m = User))"
  using assms
proof (induction evs arbitrary: st rest)
  case Nil
  then show ?case by simp
next
  case (Cons e evs)
  obtain now ev where e: "e = (now, ev)" by (cases e)
  with Cons.prems(3) have early: "now < due" and later: "\<forall>e\<in>set evs. fst e < due"
    by simp_all
  from pending_reply_step [OF Cons.prems(1,2) early, of resolve actions ev]
  obtain rest' new where step:
    "isTyping (chatStep resolve actions now ev st)"
    "timers (chatStep resolve actions now ev st) = (due, t) # rest'"
    "messages (chatStep resolve actions now ev st) = messages st @ new"
    "\<forall>m\<in>set new. sender m = User"
    by blast
  from Cons.IH [OF step(1,2) later]
  obtain rest'' new' where run:
    "isTyping (run (chatStep resolve actions) evs (chatStep resolve actions now ev st))"
    "timers (run (chatStep resolve actions) evs (chatStep resolve actions now ev st)) = (due, t) # rest''"
    "messages (run (chatStep resolve actions) evs (chatStep resolve actions now ev st)) =
       messages (chatStep resolve actions now ev st) @ new'"
    "\<forall>m\<in>set new'. sender m = User"
    by blast
  have "messages (run (chatStep resolve actions) (e # evs) st) = messages st @ (new @ new')"
    using run(3) step(3) e by simp
  moreover have "\<forall>m\<in>set (new @ new'). sender m = User"
    using step(4) run(4) by auto
  ultimately show ?case using run(1,2) e by simp
qed

text \<open>
  Claim C7, as amended. Let \<open>t\<close> be the text that \<open>handleSendMessage\<close> sends: the trimmed
  content of the input field when it is called without an argument, the query when a
  quick action calls it. If \<open>t\<close> is not empty and the conversation is idle with no reply
  pending (not typing, no callback scheduled), the call appends exactly one user message
  with text \<open>t\<close>, empties the input field, sets \<open>isTyping\<close> and schedules one callback. Until
  the callback is due, \<open>isTyping\<close> stays true and no bot message is appended, whatever
  events arrive; a timer event changes nothing. When the callback runs it appends exactly
  one bot message, whose text is the resolver's reply to \<open>t\<close>, and clears \<open>isTyping\<close>.
\<close>

theorem submit_then_delayed_reply:
  assumes "\<not> isTyping st" and "timers st = []"
    and "textToSend messageText (inputValue st) = t" and "t \<noteq> []"
    and "now + 1500 \<le> later"
  shows "messages (handleSendMessage messageText now st) =
           messages st @ [\<lparr>id_msg = toString_nat now, text_msg = t, sender = User, timestamp = now\<rparr>] \<and>
         isTyping (handleSendMessage messageText now st) \<and>
         inputValue (handleSendMessage messageText now st) = [] \<and>
         timers (handleSendMessage messageText now st) = [(now + 1500, t)] \<and>
         (\<forall>early<now + 1500.
            chatStep resolve actions early TimerFires (handleSendMessage messageText now st) =
            handleSendMessage messageText now st) \<and>
         messages (chatStep resolve actions later TimerFires (handleSendMessage messageText now st)) =
           messages st @
             [\<lparr>id_msg = toString_nat now, text_msg = t, sender = User, timestamp = now\<rparr>,
              \<lparr>id_msg = toString_nat (later + 1), text_msg = resolve t, sender = Bot, timestamp = later\<rparr>] \<and>
         \<not> isTyping (chatStep resolve actions later TimerFires (handleSendMessage messageText now st)) \<and>
         timers (chatStep resolve actions later TimerFires (handleSendMessage messageText now st)) = [] \<and>
         (\<forall>evs. (\<forall>e\<in>set evs. fst e < now + 1500) \<longrightarrow>
            isTyping (run (chatStep resolve actions) evs (handleSendMessage messageText now st)) \<and>
            (\<exists>new. (\<forall>m\<in>set new. sender m = User) \<and>
               messages (run (chatStep resolve actions) evs (handleSendMessage messageText now st)) =
                 messages (handleSendMessage messageText now st) @ new \<and>
               messages (chatStep resolve actions later TimerFires
                   (run (chatStep resolve actions) evs (handleSendMessage messageText now st))) =
                 messages (handleSendMessage messageText now st) @ new @
                   [\<lparr>id_msg = toString_nat (later + 1), text_msg = resolve t, sender = Bot, timestamp = later\<rparr>]) \<and>
            \<not> isTyping (chatStep resolve actions later TimerFires
                   (run (chatStep resolve actions) evs (handleSendMessage messageText now st))))"
proof -
  let ?st1 = "handleSendMessage messageText now st"
  have sent: "?st1 =
      st\<lparr>messages := messages st @ [\<lparr>id_msg = toString_nat now, text_msg = t, sender = User, timestamp = now\<rparr>],
         inputValue := [], isTyping := True, timers := timers st @ [(now + 1500, t)]\<rparr>"
    using assms(3,4) by (rule handleSendMessage_sends)
  have direct: "messages ?st1 =
           messages st @ [\<lparr>id_msg = toString_nat now, text_msg = t, sender = User, timestamp = now\<rparr>] \<and>
         isTyping ?st1 \<and> inputValue ?st1 = [] \<and> timers ?st1 = [(now + 1500, t)] \<and>
         (\<forall>early<now + 1500. chatStep resolve actions early TimerFires ?st1 = ?st1) \<and>
         messages (chatStep resolve actions later TimerFires ?st1) =
           messages st @
             [\<lparr>id_msg = toString_nat now, text_msg = t, sender = User, timestamp = now\<rparr>,
              \<lparr>id_msg = toString_nat (later + 1), text_msg = resolve t, sender = Bot, timestamp = later\<rparr>] \<and>
         \<not> isTyping (chatStep resolve actions later TimerFires ?st1) \<and>
         timers (chatStep resolve actions later TimerFires ?st1) = []"
    using assms(2,5) by (simp add: sent chatStep_def timeoutCallback_def Let_def)
  have between: "isTyping (run (chatStep resolve actions) evs ?st1) \<and>
            (\<exists>new. (\<forall>m\<in>set new. sender m = User) \<and>
               messages (run (chatStep resolve actions) evs ?st1) = messages ?st1 @ new \<and>
               messages (chatStep resolve actions later TimerFires (run (chatStep resolve actions) evs ?st1)) =
                 messages ?st1 @ new @
                   [\<lparr>id_msg = toString_nat (later + 1), text_msg = resolve t, sender = Bot, timestamp = later\<rparr>]) \<and>
            \<not> isTyping (chatStep resolve actions later TimerFires (run (chatStep resolve actions) evs ?st1))"
    if early: "\<forall>e\<in>set evs. fst e < now + 1500" for evs
  proof -
    have typing: "isTyping ?st1" and pending: "timers ?st1 = (now + 1500, t) # []"
      using direct by simp_all
    from pending_reply_run [OF typing pending early, of resolve actions]
    obtain rest' new where inv:
      "isTyping (run (chatStep resolve actions) evs ?st1)"
      "timers (run (chatStep resolve actions) evs ?st1) = (now + 1500, t) # rest'"
      "messages (run (chatStep resolve actions) evs ?st1) = messages ?st1 @ new"
      "\<forall>m\<in>set new. sender m = User"
      by blast
    have fire: "chatStep resolve actions later TimerFires (run (chatStep resolve actions) evs ?st1) =
        timeoutCallback resolve t later ((run (chatStep resolve actions) evs ?st1)\<lparr>timers := rest'\<rparr>)"
      using inv(2) assms(5) by (simp add: chatStep_def)
    have "messages (chatStep resolve actions later TimerFires (run (chatStep resolve actions) evs ?st1)) =
        messages ?st1 @ new @
          [\<lparr>id_msg = toString_nat (later + 1), text_msg = resolve t, sender = Bot, timestamp = later\<rparr>]"
      unfolding fire using inv(3) by (simp add: timeoutCallback_def Let_def)
    moreover have "\<not> isTyping (chatStep resolve actions later TimerFires (run (chatStep resolve actions) evs ?st1))"
      unfolding fire by (simp add: timeoutCallback_def Let_def)
    ultimately show ?thesis using inv(1,3,4) by blast
  qed
  from direct between show ?thesis by blast
qed

theorem submit_then_delayed_reply_witness:
  "messages (run step_cs [(1000, Change '' hello ''), (2000, KeyPress ''Enter'' False), (3500, TimerFires)] (initial_cs 0)) =
     messages (initial_cs 0) @
       [\<lparr>id_msg = ''2000'', text_msg = ''hello'', sender = User, timestamp = 2000\<rparr>,
        \<lparr>id_msg = ''3501'', text_msg = snd (botResponses_cs ! 3), sender = Bot, timestamp = 3500\<rparr>] \<and>
   isTyping (run step_cs [(1000, Change '' hello ''), (2000, KeyPress ''Enter'' False)] (initial_cs 0)) \<and>
   \<not> isTyping (run step_cs [(1000, Change '' hello ''), (2000, KeyPress ''Enter'' False), (3500, TimerFires)] (initial_cs 0))"
proof -
  define st where "st = (initial_cs 0)\<lparr>inputValue := '' hello ''\<rparr>"
  have idle: "\<not> isTyping st" "timers st = []"
    by (simp_all add: st_def initial_cs_def)
  have t: "textToSend None (inputValue st) = ''hello''"
    by (simp add: st_def textToSend_def trim_hello)
  have ne: "''hello'' \<noteq> []" by simp
  have due: "(2000::nat) + 1500 \<le> 3500" by simp
  note inst = submit_then_delayed_reply [OF idle t ne due, of getBotResponse_cs quickActions_cs]
  have s1: "run step_cs [(1000, Change '' hello '')] (initial_cs 0) = st"
    by (simp add: step_cs_def chatStep_def st_def initial_cs_def)
  have s2: "run step_cs [(1000, Change '' hello ''), (2000, KeyPress ''Enter'' False)] (initial_cs 0) = handleSendMessage None 2000 st"
    using s1 idle(1) by (simp add: step_cs_def chatStep_def handleKeyPress_def)
  have s3: "run step_cs [(1000, Change '' hello ''), (2000, KeyPress ''Enter'' False), (3500, TimerFires)] (initial_cs 0) =
            chatStep getBotResponse_cs quickActions_cs 3500 TimerFires (handleSendMessage None 2000 st)"
    using s2 by (simp add: step_cs_def)
  have m: "messages st = messages (initial_cs 0)"
    by (simp add: st_def)
  show ?thesis
    using inst by (simp only: s2 s3 m reply_hello_cs digits_2000 simp_thms)
qed

text \<open>
  The claim as stated takes the text of the user message to be the input itself, for every
  non-empty input, and asks of the state before only that it is not typing. The input
  field is trimmed first: a single space is a non-empty input and sends nothing, and the
  input \<open> hi\<close> sends the text \<open>hi\<close>. And a state that is not typing can still have a reply
  pending, after two quick actions in a row: a message sent in that state at 3520 gets its
  reply at 5020, but the older callback runs at 3600 and clears \<open>isTyping\<close> in between.
\<close>

theorem submit_text_counterexample:
  "'' '' \<noteq> [] \<and>
   \<not> isTyping (run step_cs [(1000, Change '' '')] (initial_cs 0)) \<and>
   messages (run step_cs [(1000, Change '' ''), (2000, KeyPress ''Enter'' False)] (initial_cs 0)) = messages (initial_cs 0) \<and>
   \<not> isTyping (run step_cs [(1000, Change '' hi'')] (initial_cs 0)) \<and>
   text_msg (last (messages (run step_cs [(1000, Change '' hi''), (2000, KeyPress ''Enter'' False)] (initial_cs 0)))) = ''hi'' \<and>
   ''hi'' \<noteq> '' hi'' \<and>
   \<not> isTyping (run step_cs
       [(2000, ClickQuickAction 0), (2100, ClickQuickAction 2), (3500, TimerFires),
        (3510, Change ''hello'')] (initial_cs 0)) \<and>
   timers (run step_cs
       [(2000, ClickQuickAction 0), (2100, ClickQuickAction 2), (3500, TimerFires),
        (3510, Change ''hello''), (3520, KeyPress ''Enter'' False)] (initial_cs 0)) =
     [(3600, ''I need help''), (5020, ''hello'')] \<and>
   \<not> isTyping (run step_cs
       [(2000, ClickQuickAction 0), (2100, ClickQuickAction 2), (3500, TimerFires),
        (3510, Change ''hello''), (3520, KeyPress ''Enter'' False), (3600, TimerFires)] (initial_cs 0)) \<and>
   timers (run step_cs
       [(2000, ClickQuickAction 0), (2100, ClickQuickAction 2), (3500, TimerFires),
        (3510, Change ''hello''), (3520, KeyPress ''Enter'' False), (3600, TimerFires)] (initial_cs 0)) =
     [(5020, ''hello'')] \<and>
   map text_msg (messages (run step_cs
       [(2000, ClickQuickAction 0), (2100, ClickQuickAction 2), (3500, TimerFires),
        (3510, Change ''hello''), (3520, KeyPress ''Enter'' False), (3600, TimerFires)] (initial_cs 0))) =
     [greeting_cs, ''track my order'', ''I need help'', getBotResponse_cs ''track my order'',
      ''hello'', getBotResponse_cs ''I need help'']"
  by (simp add: step_cs_def chatStep_def handleKeyPress_def handleSendMessage_def textToSend_def
      timeoutCallback_def trim_blank_one trim_plain_hello quickActions_cs_def initial_cs_def Let_def)

section \<open>Submissions while a reply is pending\<close>

text \<open>
  Claim C1. The claim says that nothing can be submitted while \<open>isTyping\<close> is true. That
  holds for the input field and the send button, which are disabled then
  (\<open>typing_blocks_input\<close>). The quick-action buttons are never disabled and
  \<open>handleSendMessage\<close> does not look at \<open>isTyping\<close>: in both files a quick action clicked
  while a reply is pending appends a second user message and schedules a second callback,
  so that two replies are outstanding.
\<close>

theorem quick_action_while_typing:
  "isTyping (run step_nibbly [(1000, ClickOpen), (2000, ClickQuickAction 0)] (initial_nibbly 0)) \<and>
   timers (run step_nibbly [(1000, ClickOpen), (2000, ClickQuickAction 0)] (initial_nibbly 0)) =
     [(3500, ''track my order'')] \<and>
   map text_msg (messages (run step_nibbly
       [(1000, ClickOpen), (2000, ClickQuickAction 0), (2100, ClickQuickAction 2)] (initial_nibbly 0))) =
     [greeting_nibbly, ''track my order'', ''I need help''] \<and>
   timers (run step_nibbly
       [(1000, ClickOpen), (2000, ClickQuickAction 0), (2100, ClickQuickAction 2)] (initial_nibbly 0)) =
     [(3500, ''track my order''), (3600, ''I need help'')] \<and>
   isTyping (run step_cs [(2000, ClickQuickAction 0)] (initial_cs 0)) \<and>
   map text_msg (messages (run step_cs
       [(2000, ClickQuickAction 0), (2100, ClickQuickAction 2)] (initial_cs 0))) =
     [greeting_cs, ''track my order'', ''I need help''] \<and>
   timers (run step_cs [(2000, ClickQuickAction 0), (2100, ClickQuickAction 2)] (initial_cs 0)) =
     [(3500, ''track my order''), (3600, ''I need help'')]"
  by (simp add: step_nibbly_def step_cs_def chatStep_def handleSendMessage_def textToSend_def
      initial_nibbly_def initial_cs_def quickActions_nibbly_def quickActions_cs_def Let_def)

section \<open>Message identifiers\<close>

text \<open>
  Claim C8. The claim says that the identifiers of the messages are pairwise distinct and
  increase with creation. An identifier is the instant of creation in milliseconds, plus
  one for a bot message. A submission one millisecond after a reply therefore repeats the
  identifier of that reply: in both files the run below ends with two messages, the bot
  reply and the next user message, that carry the same identifier.
\<close>

theorem message_id_collision:
  "\<not> isTyping (run step_cs
       [(1700000000000, ClickQuickAction 0), (1700000001500, TimerFires)] (initial_cs 1699999990000)) \<and>
   map id_msg (messages (run step_cs
       [(1700000000000, ClickQuickAction 0), (1700000001500, TimerFires),
        (1700000001501, ClickQuickAction 2)] (initial_cs 1699999990000))) =
     [''1'', ''1700000000000'', ''1700000001501'', ''1700000001501''] \<and>
   map sender (messages (run step_cs
       [(1700000000000, ClickQuickAction 0), (1700000001500, TimerFires),
        (1700000001501, ClickQuickAction 2)] (initial_cs 1699999990000))) =
     [Bot, User, Bot, User] \<and>
   \<not> distinct (map id_msg (messages (run step_nibbly
       [(1699999995000, ClickOpen), (1700000000000, ClickQuickAction 0), (1700000001500, TimerFires),
        (1700000001501, ClickQuickAction 2)] (initial_nibbly 1699999990000))))"
  by (simp add: step_nibbly_def step_cs_def chatStep_def handleSendMessage_def textToSend_def
      timeoutCallback_def initial_nibbly_def initial_cs_def quickActions_nibbly_def
      quickActions_cs_def Let_def digits_ids)

end
